theory Spec2Isabelle
  imports Complex_Main "HOL-Library.Word"
begin

section \<open>Chunked voxel-mesh buffers (\<open>buffer_voxel_mesh.ts\<close>)\<close>

text \<open>
  A shallow embedding of the class \<open>BufferGenerator_VoxelMesh\<close>.

  JavaScript numbers held in \<open>Float32Array\<close>s are values of a type \<open>'a\<close> with the
  program's addition written \<open>+\<close>; nothing is assumed about it, and the rounding to
  single precision of a store into such an array is a parameter, \<open>fround\<close>. Counts,
  indices and the configured chunk size are integers (\<open>int\<close>, \<open>nat\<close>), exact as
  JavaScript's are below \<open>2 ^ 53\<close>. The \<open>Uint32Array\<close> of indices holds 32-bit words,
  whose addition wraps. The quotient \<open>progress\<close> is the exact rational, of which
  JavaScript keeps the nearest double. Running out of memory is not modelled.
\<close>

subsection \<open>Errors\<close>

text \<open>
  \<open>ASSERT\<close> throws an \<open>Error\<close> with its message; a typed array of negative length and a
  \<open>set\<close> past the end throw a \<open>RangeError\<close>; reading a property of \<open>undefined\<close> throws a
  \<open>TypeError\<close>.
\<close>

datatype error = AssertionFailed string | RangeError | TypeError

subsection \<open>Data\<close>

datatype 'a Vector3 = Vector3 (vec_x: 'a) (vec_y: 'a) (vec_z: 'a)

text \<open>
  Modelled from the spec: the class \<open>Vector3\<close> is not part of the sources at hand. The
  spec has a position as 3 scalars; \<open>toArray\<close> gives them in the order x, y, z.
\<close>

definition toArray :: "'a Vector3 \<Rightarrow> 'a list" where
  "toArray v = [vec_x v, vec_y v, vec_z v]"

datatype 'a RGBA = RGBA (rgba_r: 'a) (rgba_g: 'a) (rgba_b: 'a) (rgba_a: 'a)

datatype 'a OtS_Voxel = OtS_Voxel (voxel_position: "'a Vector3") (voxel_colour: "'a RGBA")

text \<open>
  Modelled from the spec: the class \<open>OtS_VoxelMesh\<close> is not part of the sources at hand.
  The spec describes it as an ordered, finite collection of voxels with
  \<open>voxels()\<close>, an ordered sequence, and \<open>voxelCount()\<close>, the total number of voxels.
  A voxel is a value: the spec has it immutable once the mesh has produced it.
\<close>

type_synonym 'a OtS_VoxelMesh = "'a OtS_Voxel list"

definition getVoxels :: "'a OtS_VoxelMesh \<Rightarrow> 'a OtS_Voxel list" where
  "getVoxels voxelMesh = voxelMesh"

definition getVoxelCount :: "'a OtS_VoxelMesh \<Rightarrow> nat" where
  "getVoxelCount voxelMesh = length voxelMesh"

text \<open>\<open>AttributeData\<close>: the index array and the custom attributes of the cube template.\<close>

record 'a AttributeData =
  cube_indices :: "32 word list"
  custom_position :: "'a list"
  custom_normal :: "'a list"
  custom_texcoord :: "'a list"

record 'd Attribute =
  numComponents :: nat
  data :: 'd

record 'a TVoxelMeshBuffer =
  position :: "'a list Attribute"
  colour :: "'a list Attribute"
  occlusion :: "'a list Attribute"
  texcoord :: "'a list Attribute"
  normal :: "'a list Attribute"
  indices :: "32 word list Attribute"

record 'a TBuffer_VoxelMesh =
  buffer :: "'a TVoxelMeshBuffer"
  numElements :: nat
  moreVoxelsToBuffer :: bool
  progress :: rat

text \<open>
  What the class takes from outside itself, as parameters:
  \<^item> \<open>fround\<close>, the conversion to single precision that every store into a
    \<open>Float32Array\<close> applies, and \<open>NaN\<close>, the sum of \<open>undefined\<close> and a number;
  \<^item> \<open>getBoxBufferData\<close>, the value of \<open>GeometryTemplates.getBoxBufferData(new Vector3(0, 0, 0))\<close>;
  \<^item> \<open>process\<close>, the neighbourhood \<open>OtS_VoxelMesh_Neighbourhood.process\<close> builds from a
    mesh in mode \<open>'non-cardinal'\<close>;
  \<^item> \<open>GetOcclusions\<close>. Modelled from the spec: \<open>OtSE_AmbientOcclusion.GetOcclusions\<close> is
    not part of the sources at hand; the spec gives it as
    \<open>weights(position, NeighbourhoodIndex)\<close>, a fixed array of 24 x 4 floats, which the call
    leaves in the scratch array passed to it.
\<close>

record ('a, 'nb) env =
  fround :: "'a \<Rightarrow> 'a"
  NaN :: 'a
  getBoxBufferData :: "'a AttributeData"
  process :: "'a OtS_VoxelMesh \<Rightarrow> 'nb"
  GetOcclusions :: "'a Vector3 \<Rightarrow> 'nb \<Rightarrow> 'a list"

text \<open>
  The state outside the builder that can change between calls: the configured
  \<open>AppConfig.Get.VOXEL_BUFFER_CHUNK_SIZE\<close> and the voxel meshes, which the program holds by
  reference.
\<close>

record 'a world =
  VOXEL_BUFFER_CHUNK_SIZE :: int
  meshes :: "nat \<Rightarrow> 'a OtS_VoxelMesh"

record ('a, 'nb) BufferGenerator_VoxelMesh =
  this_voxelMesh :: nat
  this_voxels :: "'a OtS_Voxel list"
  this_createAmbientOcclusionBuffer :: bool
  this_nextChunkIndex :: nat
  this_numTotalVoxels :: nat
  this_cache :: "nat \<rightharpoonup> 'a TBuffer_VoxelMesh"
  this_neighbourhood :: "'nb option"

subsection \<open>Constants\<close>

text \<open>
  Modelled from the spec: \<open>AppConstants\<close> is not part of the sources at hand. The spec
  gives 24 vertices for each voxel, with 3, 4, 4, 3 and 2 components for position, colour,
  occlusion, normal and texcoord, 36 index entries for each voxel, and an index offset of
  24 from one voxel to the next.
\<close>

definition POSITION :: nat where "POSITION = 72"
definition COLOUR :: nat where "COLOUR = 96"
definition OCCLUSION :: nat where "OCCLUSION = 96"
definition TEXCOORD :: nat where "TEXCOORD = 48"
definition NORMAL :: nat where "NORMAL = 72"
definition INDICES :: nat where "INDICES = 36"
definition INDICES_PER_VOXEL :: nat where "INDICES_PER_VOXEL = 24"

subsection \<open>Typed arrays\<close>

definition new_Float32Array :: "int \<Rightarrow> error + ('a::zero) list" where
  "new_Float32Array n = (if n < 0 then Inl RangeError else Inr (replicate (nat n) 0))"

definition new_Uint32Array :: "int \<Rightarrow> error + 32 word list" where
  "new_Uint32Array n = (if n < 0 then Inl RangeError else Inr (replicate (nat n) 0))"

definition fill :: "'a list \<Rightarrow> 'a \<Rightarrow> 'a list" where
  "fill arr v = map (\<lambda>_. v) arr"

text \<open>\<open>target.set(source, offset)\<close>: a source that does not fit is a \<open>RangeError\<close>.\<close>

definition typed_set :: "'a list \<Rightarrow> 'a list \<Rightarrow> nat \<Rightarrow> error + 'a list" where
  "typed_set target source offset =
     (if length target < offset + length source then Inl RangeError
      else Inr (take offset target @ source @ drop (offset + length source) target))"

text \<open>
  Modelled from the spec: \<open>OtS_Util.Array.repeatedFill\<close> is not part of the sources at
  hand. The spec has it replicate the tuple of \<open>stride\<close> entries written at \<open>start\<close>
  over \<open>count\<close> consecutive slots; the array keeps its length.
\<close>

definition repeatedFill :: "'a list \<Rightarrow> nat \<Rightarrow> nat \<Rightarrow> nat \<Rightarrow> 'a list" where
  "repeatedFill buf start stride count =
     map (\<lambda>p. if start \<le> p \<and> p < start + count * stride
               then buf ! (start + (p - start) mod stride) else buf ! p)
         [0..<length buf]"

subsection \<open>Loops and sequencing\<close>

definition bind :: "error + 'x \<Rightarrow> ('x \<Rightarrow> error + 'y) \<Rightarrow> error + 'y" where
  "bind m f = (case m of Inl e \<Rightarrow> Inl e | Inr v \<Rightarrow> f v)"

text \<open>\<open>for (let i = 0; i < n; ++i) body\<close> is \<open>for_loop [0..<n] body\<close>; a throw ends it.\<close>

primrec for_loop :: "nat list \<Rightarrow> (nat \<Rightarrow> 's \<Rightarrow> error + 's) \<Rightarrow> 's \<Rightarrow> error + 's" where
  "for_loop [] body s = Inr s"
| "for_loop (i # rest) body s = bind (body i s) (for_loop rest body)"

text \<open>
  Modelled from the spec: \<open>ASSERT\<close> is not part of the sources at hand. The spec has a
  violated precondition as a fatal failure, an assertion that aborts the call; the failure
  carries the message the call gives.
\<close>

definition ASSERT :: "bool \<Rightarrow> string \<Rightarrow> error + unit" where
  "ASSERT condition errorMessage = (if condition then Inr () else Inl (AssertionFailed errorMessage))"

text \<open>\<open>this._voxels[k]\<close> followed by a property read: \<open>undefined\<close> there is a \<open>TypeError\<close>.\<close>

definition voxel_at :: "'a OtS_Voxel list \<Rightarrow> int \<Rightarrow> error + 'a OtS_Voxel" where
  "voxel_at voxels k =
     (if 0 \<le> k \<and> k < int (length voxels) then Inr (voxels ! nat k) else Inl TypeError)"

subsection \<open>\<open>createVoxelMeshBuffer\<close>\<close>

definition createVoxelMeshBuffer :: "int \<Rightarrow> error + ('a::{zero,one}) TVoxelMeshBuffer" where
  "createVoxelMeshBuffer numVoxels =
     bind (new_Float32Array (numVoxels * int POSITION)) (\<lambda>p.
     bind (new_Float32Array (numVoxels * int COLOUR)) (\<lambda>c.
     bind (new_Float32Array (numVoxels * int OCCLUSION)) (\<lambda>ov.
     bind (new_Float32Array (numVoxels * int TEXCOORD)) (\<lambda>t.
     bind (new_Float32Array (numVoxels * int NORMAL)) (\<lambda>n.
     bind (new_Uint32Array (numVoxels * int INDICES)) (\<lambda>ix.
       Inr \<lparr> position = \<lparr> numComponents = 3, data = p \<rparr>,
             colour = \<lparr> numComponents = 4, data = c \<rparr>,
             occlusion = \<lparr> numComponents = 4, data = fill ov 1 \<rparr>,
             texcoord = \<lparr> numComponents = 2, data = t \<rparr>,
             normal = \<lparr> numComponents = 3, data = n \<rparr>,
             indices = \<lparr> numComponents = 3, data = ix \<rparr> \<rparr>))))))"

subsection \<open>The loops of \<open>_fromVoxelMesh\<close>\<close>

text \<open>
  The value stored at component \<open>j\<close> of a voxel's positions: the template read is
  \<open>undefined\<close> past the template's end, and the sum is then \<open>NaN\<close>.
\<close>

definition position_value :: "('a::plus, 'nb) env \<Rightarrow> 'a list \<Rightarrow> nat \<Rightarrow> 'a" where
  "position_value E voxelPositionArray j =
     (let template = custom_position (getBoxBufferData E)
      in if j < length template
         then fround E (template ! j + voxelPositionArray ! (j mod 3))
         else NaN E)"

definition position_body ::
  "('a::plus, 'nb) env \<Rightarrow> 'a OtS_Voxel list \<Rightarrow> int \<Rightarrow> nat \<Rightarrow> 'a list \<Rightarrow> error + 'a list" where
  "position_body E voxels voxelsStartIndex i d =
     bind (voxel_at voxels (int i + voxelsStartIndex)) (\<lambda>voxel.
       let voxelPositionArray = toArray (voxel_position voxel)
       in Inr (fold (\<lambda>j d. d[i * POSITION + j := position_value E voxelPositionArray j])
                 [0..<POSITION] d))"

definition colour_body ::
  "('a, 'nb) env \<Rightarrow> 'a OtS_Voxel list \<Rightarrow> int \<Rightarrow> nat \<Rightarrow> 'a list \<Rightarrow> error + 'a list" where
  "colour_body E voxels voxelsStartIndex i d =
     bind (voxel_at voxels (int i + voxelsStartIndex)) (\<lambda>voxel.
       let d1 = d[i * 96 + 0 := fround E (rgba_r (voxel_colour voxel))];
           d2 = d1[i * 96 + 1 := fround E (rgba_g (voxel_colour voxel))];
           d3 = d2[i * 96 + 2 := fround E (rgba_b (voxel_colour voxel))];
           d4 = d3[i * 96 + 3 := fround E (rgba_a (voxel_colour voxel))]
       in Inr (repeatedFill d4 (i * 96) 4 24))"

text \<open>
  The value stored at component \<open>j\<close> of voxel \<open>i\<close>'s indices: reading the template
  past its end gives \<open>undefined\<close>, the sum is \<open>NaN\<close>, and a \<open>Uint32Array\<close> stores 0 for it;
  otherwise the store keeps the sum modulo \<open>2 ^ 32\<close>.
\<close>

definition index_value :: "('a, 'nb) env \<Rightarrow> nat \<Rightarrow> nat \<Rightarrow> 32 word" where
  "index_value E i j =
     (let template = cube_indices (getBoxBufferData E)
      in if j < length template then template ! j + word_of_nat (i * INDICES_PER_VOXEL) else 0)"

definition indices_body :: "('a, 'nb) env \<Rightarrow> nat \<Rightarrow> 32 word list \<Rightarrow> error + 32 word list" where
  "indices_body E i d =
     Inr (fold (\<lambda>j d. d[i * INDICES + j := index_value E i j]) [0..<INDICES] d)"

definition occlusion_body ::
  "('a, 'nb) env \<Rightarrow> 'nb \<Rightarrow> 'a OtS_Voxel list \<Rightarrow> int \<Rightarrow> nat \<Rightarrow> 'a list \<Rightarrow> error + 'a list" where
  "occlusion_body E neighbourhood voxels voxelsStartIndex i d =
     bind (voxel_at voxels (int i + voxelsStartIndex)) (\<lambda>voxel.
       let voxelOcclusionArray = GetOcclusions E (voxel_position voxel) neighbourhood
       in typed_set d voxelOcclusionArray (i * OCCLUSION))"

subsection \<open>\<open>_fromVoxelMesh\<close>, \<open>getNext\<close>, \<open>getFromIndex\<close> and the constructor\<close>

definition voxelsStartIndex :: "int \<Rightarrow> nat \<Rightarrow> int" where
  "voxelsStartIndex S chunkIndex = int chunkIndex * S"

definition voxelsEndIndex :: "int \<Rightarrow> nat \<Rightarrow> nat \<Rightarrow> int" where
  "voxelsEndIndex S N chunkIndex = min ((int chunkIndex + 1) * S) (int N)"

definition numBufferVoxels :: "int \<Rightarrow> nat \<Rightarrow> nat \<Rightarrow> int" where
  "numBufferVoxels S N chunkIndex = voxelsEndIndex S N chunkIndex - voxelsStartIndex S chunkIndex"

definition fromVoxelMesh ::
  "('a::{zero,one,plus}, 'nb) env \<Rightarrow> 'a world \<Rightarrow> ('a, 'nb) BufferGenerator_VoxelMesh \<Rightarrow> nat
     \<Rightarrow> error + 'a TBuffer_VoxelMesh" where
  "fromVoxelMesh E w this chunkIndex =
     (let S = VOXEL_BUFFER_CHUNK_SIZE w;
          N = this_numTotalVoxels this;
          startIndex = voxelsStartIndex S chunkIndex;
          endIndex = voxelsEndIndex S N chunkIndex
      in
      bind (ASSERT (startIndex < int N) ''Invalid voxel start index'') (\<lambda>_.
      let count = numBufferVoxels S N chunkIndex;
          cube = getBoxBufferData E
      in
      bind (createVoxelMeshBuffer count) (\<lambda>newBuffer.
      bind (for_loop [0..<nat count] (position_body E (this_voxels this) startIndex)
              (data (position newBuffer))) (\<lambda>positionData.
      bind (for_loop [0..<nat count] (colour_body E (this_voxels this) startIndex)
              (data (colour newBuffer))) (\<lambda>colourData.
      bind (typed_set (data (normal newBuffer)) (map (fround E) (custom_normal cube)) 0) (\<lambda>n0.
      let normalData = repeatedFill n0 0 72 (nat count) in
      bind (typed_set (data (texcoord newBuffer)) (map (fround E) (custom_texcoord cube)) 0) (\<lambda>t0.
      let texcoordData = repeatedFill t0 0 48 (nat count) in
      bind (for_loop [0..<nat count] (indices_body E) (data (indices newBuffer))) (\<lambda>indicesData.
      bind (if this_createAmbientOcclusionBuffer this
            then (case this_neighbourhood this of
                    None \<Rightarrow> Inl (AssertionFailed ''Assertion Failed'')
                  | Some neighbourhood \<Rightarrow>
                      for_loop [0..<nat count]
                        (occlusion_body E neighbourhood (this_voxels this) startIndex)
                        (data (occlusion newBuffer)))
            else Inr (data (occlusion newBuffer))) (\<lambda>occlusionData.
      Inr \<lparr> buffer =
              \<lparr> position = (position newBuffer) \<lparr> data := positionData \<rparr>,
                colour = (colour newBuffer) \<lparr> data := colourData \<rparr>,
                occlusion = (occlusion newBuffer) \<lparr> data := occlusionData \<rparr>,
                texcoord = (texcoord newBuffer) \<lparr> data := texcoordData \<rparr>,
                normal = (normal newBuffer) \<lparr> data := normalData \<rparr>,
                indices = (indices newBuffer) \<lparr> data := indicesData \<rparr> \<rparr>,
             numElements = length indicesData,
             moreVoxelsToBuffer = (endIndex \<noteq> int N),
             progress = of_int startIndex / of_nat N \<rparr>)))))))))"

text \<open>
  \<open>getNext\<close> returns what the call gives, a throw or the chunk, with the builder after
  the call: a throw of \<open>_fromVoxelMesh\<close> leaves before the cache and the cursor are touched.
\<close>

definition getNext ::
  "('a::{zero,one,plus}, 'nb) env \<Rightarrow> 'a world \<Rightarrow> ('a, 'nb) BufferGenerator_VoxelMesh
     \<Rightarrow> (error + 'a TBuffer_VoxelMesh) \<times> ('a, 'nb) BufferGenerator_VoxelMesh" where
  "getNext E w this =
     (case fromVoxelMesh E w this (this_nextChunkIndex this) of
        Inl e \<Rightarrow> (Inl e, this)
      | Inr buf \<Rightarrow>
          (Inr buf,
           this \<lparr> this_cache := (this_cache this)(this_nextChunkIndex this \<mapsto> buf),
                  this_nextChunkIndex := this_nextChunkIndex this + 1 \<rparr>))"

definition getFromIndex ::
  "('a, 'nb) BufferGenerator_VoxelMesh \<Rightarrow> nat
     \<Rightarrow> 'a TBuffer_VoxelMesh option \<times> ('a, 'nb) BufferGenerator_VoxelMesh" where
  "getFromIndex this index = (this_cache this index, this)"

text \<open>
  The constructor takes the mesh by reference and reads it in the world of the call. No
  statement of it throws, so its result is always \<open>Inr\<close>.
\<close>

definition constructor ::
  "('a, 'nb) env \<Rightarrow> 'a world \<Rightarrow> nat \<Rightarrow> bool \<Rightarrow> error + ('a, 'nb) BufferGenerator_VoxelMesh" where
  "constructor E w voxelMesh createAmbientOcclusionBuffer =
     Inr \<lparr> this_voxelMesh = voxelMesh,
           this_voxels = getVoxels (meshes w voxelMesh),
           this_createAmbientOcclusionBuffer = createAmbientOcclusionBuffer,
           this_nextChunkIndex = 0,
           this_numTotalVoxels = getVoxelCount (meshes w voxelMesh),
           this_cache = Map.empty,
           this_neighbourhood =
             (if createAmbientOcclusionBuffer then Some (process E (meshes w voxelMesh))
              else None) \<rparr>"

text \<open>A caller's successive \<open>getNext\<close> calls, one world for each call, with every outcome.\<close>

fun getNext_calls ::
  "('a::{zero,one,plus}, 'nb) env \<Rightarrow> 'a world list \<Rightarrow> ('a, 'nb) BufferGenerator_VoxelMesh
     \<Rightarrow> (error + 'a TBuffer_VoxelMesh) list \<times> ('a, 'nb) BufferGenerator_VoxelMesh" where
  "getNext_calls E [] this = ([], this)"
| "getNext_calls E (w # ws) this =
     (let (r, this1) = getNext E w this;
          (rs, this2) = getNext_calls E ws this1
      in (r # rs, this2))"


text \<open>The chunks among the outcomes of a run of calls, in order.\<close>

definition successes :: "(error + 'c) list \<Rightarrow> 'c list" where
  "successes rs = map projr (filter (\<lambda>r. \<not> isl r) rs)"

text \<open>
  The builders a program can hold: the constructor's result, and what any call of
  \<open>getNext\<close> or \<open>getFromIndex\<close>, in any world, leaves of one.
\<close>

inductive reachable ::
  "('a::{zero,one,plus}, 'nb) env \<Rightarrow> 'a world \<Rightarrow> nat \<Rightarrow> bool
     \<Rightarrow> ('a, 'nb) BufferGenerator_VoxelMesh \<Rightarrow> bool"
  for E :: "('a::{zero,one,plus}, 'nb) env" and w0 :: "'a world" and voxelMesh :: nat and ao :: bool
where
  constructed: "constructor E w0 voxelMesh ao = Inr this \<Longrightarrow> reachable E w0 voxelMesh ao this"
| produced: "reachable E w0 voxelMesh ao this \<Longrightarrow> getNext E w this = (r, this')
     \<Longrightarrow> reachable E w0 voxelMesh ao this'"
| looked_up: "reachable E w0 voxelMesh ao this \<Longrightarrow> getFromIndex this index = (c, this')
     \<Longrightarrow> reachable E w0 voxelMesh ao this'"

subsection \<open>What the spec says of the collaborators\<close>

text \<open>
  The template has 24 positions, normals and texture coordinates and 36 indices; the
  indices are local, from 0 to 23; the occlusion weights of a voxel are 24 x 4 floats.
\<close>

definition cube_ok :: "('a, 'nb) env \<Rightarrow> bool" where
  "cube_ok E \<longleftrightarrow>
     length (custom_position (getBoxBufferData E)) = 72 \<and>
     length (custom_normal (getBoxBufferData E)) = 72 \<and>
     length (custom_texcoord (getBoxBufferData E)) = 48 \<and>
     length (cube_indices (getBoxBufferData E)) = 36"

definition indices_local :: "('a, 'nb) env \<Rightarrow> bool" where
  "indices_local E \<longleftrightarrow> list_all (\<lambda>t. unat t < 24) (cube_indices (getBoxBufferData E))"

definition occlusions_ok :: "('a, 'nb) env \<Rightarrow> bool" where
  "occlusions_ok E \<longleftrightarrow> (\<forall>p nb. length (GetOcclusions E p nb) = 96)"

subsection \<open>A small instance\<close>

text \<open>
  Integers for the numbers, a store that keeps them, a template of the right shape, and a
  mesh of three voxels; the neighbourhood is the number of voxels of the mesh.
\<close>

definition ex_cube :: "int AttributeData" where
  "ex_cube = \<lparr> cube_indices = map (\<lambda>j. word_of_nat (j mod 24)) [0..<36],
               custom_position = map (\<lambda>j. int (j mod 2)) [0..<72],
               custom_normal = map (\<lambda>j. int (j mod 3)) [0..<72],
               custom_texcoord = map (\<lambda>j. int (j mod 2)) [0..<48] \<rparr>"

definition ex_env :: "(int, nat) env" where
  "ex_env = \<lparr> fround = (\<lambda>v. v), NaN = 0, getBoxBufferData = ex_cube,
              process = length,
              GetOcclusions = (\<lambda>p nb. replicate 96 (vec_x p + int nb)) \<rparr>"

definition ex_mesh :: "int OtS_VoxelMesh" where
  "ex_mesh = [OtS_Voxel (Vector3 10 20 30) (RGBA 1 2 3 4),
              OtS_Voxel (Vector3 11 21 31) (RGBA 5 6 7 8),
              OtS_Voxel (Vector3 12 22 32) (RGBA 9 10 11 12)]"

definition ex_world :: "int \<Rightarrow> int world" where
  "ex_world S = \<lparr> VOXEL_BUFFER_CHUNK_SIZE = S, meshes = (\<lambda>_. ex_mesh) \<rparr>"

definition ex_builder :: "bool \<Rightarrow> nat \<Rightarrow> (int, nat) BufferGenerator_VoxelMesh" where
  "ex_builder ao k =
     \<lparr> this_voxelMesh = 0, this_voxels = ex_mesh, this_createAmbientOcclusionBuffer = ao,
       this_nextChunkIndex = k, this_numTotalVoxels = 3, this_cache = Map.empty,
       this_neighbourhood = (if ao then Some 3 else None) \<rparr>"

text \<open>What no call changes: the snapshot, the count, the flag and the neighbourhood.\<close>

definition snapshot_of ::
  "('a, 'nb) env \<Rightarrow> 'a world \<Rightarrow> nat \<Rightarrow> bool \<Rightarrow> ('a, 'nb) BufferGenerator_VoxelMesh \<Rightarrow> bool" where
  "snapshot_of E w0 voxelMesh ao this \<longleftrightarrow>
     this_voxelMesh this = voxelMesh \<and>
     this_voxels this = meshes w0 voxelMesh \<and>
     this_numTotalVoxels this = length (meshes w0 voxelMesh) \<and>
     this_createAmbientOcclusionBuffer this = ao \<and>
     this_neighbourhood this = (if ao then Some (process E (meshes w0 voxelMesh)) else None)"

text \<open>What a builder must hold for its calls to return: its count is that of its snapshot,
  and with occlusion buffering it has a neighbourhood and the calculator gives 96 weights.\<close>

definition builder_ok :: "('a, 'nb) env \<Rightarrow> ('a, 'nb) BufferGenerator_VoxelMesh \<Rightarrow> bool" where
  "builder_ok E this \<longleftrightarrow>
     this_numTotalVoxels this = length (this_voxels this) \<and>
     (this_createAmbientOcclusionBuffer this \<longrightarrow>
        occlusions_ok E \<and> this_neighbourhood this \<noteq> None)"

section \<open>Lemmas\<close>

subsection \<open>Sequencing, loops and typed arrays\<close>

lemma bind_Inr_iff: "bind m f = Inr v \<longleftrightarrow> (\<exists>u. m = Inr u \<and> f u = Inr v)"
  by (cases m) (simp_all add: bind_def)

lemma bind_Inr [simp]: "bind (Inr u) f = f u"
  by (simp add: bind_def)

lemma bind_Inl [simp]: "bind (Inl e) f = Inl e"
  by (simp add: bind_def)

lemma for_loop_append:
  "for_loop (xs @ ys) body s = bind (for_loop xs body s) (for_loop ys body)"
  by (induction xs arbitrary: s) (simp_all add: bind_def split: sum.splits)

lemma for_loop_single: "for_loop [i] body = body i"
  by (rule ext) (simp add: bind_def split: sum.splits)

lemma for_loop_Suc:
  "for_loop [0..<Suc n] body s = bind (for_loop [0..<n] body s) (body n)"
  by (simp add: for_loop_append for_loop_single)

text \<open>A loop whose step \<open>i\<close> rewrites block \<open>i\<close> of \<open>B\<close> entries and nothing else.\<close>

lemma for_loop_blocks:
  assumes step: "\<And>i d d1. i < n \<Longrightarrow> length d = L \<Longrightarrow> body i d = Inr d1 \<Longrightarrow>
            length d1 = L \<and> (\<forall>p<L. d1 ! p = (if i * B \<le> p \<and> p < i * B + B then g i (p - i * B) else d ! p))"
    and run: "for_loop [0..<n] body d = Inr d'"
    and len: "length d = L"
  shows "length d' = L \<and> (\<forall>p<L. d' ! p = (if p < n * B then g (p div B) (p mod B) else d ! p))"
  using step run
proof (induction n arbitrary: d')
  case 0
  then show ?case using len by simp
next
  case (Suc n)
  from Suc.prems(2) obtain dm where dm: "for_loop [0..<n] body d = Inr dm" and last: "body n dm = Inr d'"
    by (auto simp: for_loop_append for_loop_single bind_Inr_iff)
  have stepn: "length d1 = L \<and> (\<forall>p<L. d1 ! p = (if i * B \<le> p \<and> p < i * B + B then g i (p - i * B) else d0 ! p))"
    if "i < n" "length d0 = L" "body i d0 = Inr d1" for i d0 d1
    using Suc.prems(1) [of i d0 d1] that by simp
  have IH: "length dm = L \<and> (\<forall>p<L. dm ! p = (if p < n * B then g (p div B) (p mod B) else d ! p))"
    by (rule Suc.IH [OF stepn dm])
  have st: "length d' = L \<and> (\<forall>p<L. d' ! p = (if n * B \<le> p \<and> p < n * B + B then g n (p - n * B) else dm ! p))"
    using Suc.prems(1) [of n dm d'] IH last by simp
  show ?case
  proof (intro conjI allI impI)
    show "length d' = L" using st by simp
  next
    fix p assume p: "p < L"
    show "d' ! p = (if p < Suc n * B then g (p div B) (p mod B) else d ! p)"
    proof (cases "n * B \<le> p \<and> p < n * B + B")
      case True
      then have "0 < B" by (cases B) auto
      from True have "p div B = n"
        by (intro div_nat_eqI) (simp_all add: mult.commute)
      moreover from this have "p mod B = p - n * B"
        by (simp add: modulo_nat_def)
      ultimately show ?thesis using st p True by simp
    next
      case False
      then show ?thesis using st IH p by auto
    qed
  qed
qed

text \<open>A loop whose steps all return keeps returning.\<close>

lemma for_loop_returns:
  assumes step: "\<And>i d. i < n \<Longrightarrow> length d = L \<Longrightarrow> \<exists>d1. body i d = Inr d1 \<and> length d1 = L"
    and len: "length d = L"
  shows "\<exists>d'. for_loop [0..<n] body d = Inr d' \<and> length d' = L"
  using step
proof (induction n)
  case 0
  then show ?case using len by simp
next
  case (Suc n)
  have "\<exists>dm. for_loop [0..<n] body d = Inr dm \<and> length dm = L"
    by (rule Suc.IH) (simp add: Suc.prems)
  then obtain dm where dm: "for_loop [0..<n] body d = Inr dm" "length dm = L"
    by blast
  from Suc.prems [of n dm] dm obtain d1 where "body n dm = Inr d1" "length d1 = L" by auto
  then show ?case using dm by (simp add: for_loop_append for_loop_single)
qed

lemma fold_update_length:
  "length (fold (\<lambda>j d. d[off + j := v j]) js d) = length d"
  by (induction js arbitrary: d) simp_all

lemma fold_update_nth:
  "p < length d \<Longrightarrow>
   fold (\<lambda>j d. d[off + j := v j]) [0..<m] d ! p = (if off \<le> p \<and> p < off + m then v (p - off) else d ! p)"
proof (induction m)
  case 0
  then show ?case by auto
next
  case (Suc m)
  show ?case
  proof (cases "p = off + m")
    case True
    then show ?thesis using Suc.prems by (simp add: fold_update_length)
  next
    case False
    then show ?thesis using Suc by (auto simp: fold_update_length)
  qed
qed

lemma repeatedFill_length: "length (repeatedFill buf start stride count) = length buf"
  by (simp add: repeatedFill_def)

lemma repeatedFill_nth:
  "p < length buf \<Longrightarrow>
   repeatedFill buf start stride count ! p =
     (if start \<le> p \<and> p < start + count * stride
      then buf ! (start + (p - start) mod stride) else buf ! p)"
  by (simp add: repeatedFill_def)

lemma typed_set_Inr:
  assumes "typed_set target source offset = Inr d1"
  shows "offset + length source \<le> length target"
    and "length d1 = length target"
    and "p < length target \<Longrightarrow>
         d1 ! p = (if offset \<le> p \<and> p < offset + length source then source ! (p - offset)
                   else target ! p)"
proof -
  from assms show fit: "offset + length source \<le> length target"
    by (simp add: typed_set_def split: if_splits)
  from assms have d1: "d1 = take offset target @ source @ drop (offset + length source) target"
    by (simp add: typed_set_def split: if_splits)
  show "length d1 = length target" using fit by (simp add: d1)
  show "d1 ! p = (if offset \<le> p \<and> p < offset + length source then source ! (p - offset)
                   else target ! p)" if "p < length target"
    using fit that by (auto simp: d1 nth_append)
qed

lemma typed_set_returns:
  "offset + length source \<le> length target \<Longrightarrow> \<exists>d1. typed_set target source offset = Inr d1"
  by (simp add: typed_set_def)

lemma voxel_at_Inr:
  "voxel_at voxels k = Inr voxel \<longleftrightarrow> 0 \<le> k \<and> k < int (length voxels) \<and> voxel = voxels ! nat k"
  by (auto simp: voxel_at_def)

lemma position_body_step:
  assumes "position_body E voxels start i d = Inr d1"
  shows "0 \<le> int i + start \<and> int i + start < int (length voxels)"
    and "length d1 = length d"
    and "p < length d \<Longrightarrow>
         d1 ! p = (if i * 72 \<le> p \<and> p < i * 72 + 72
                   then position_value E (toArray (voxel_position (voxels ! nat (int i + start)))) (p - i * 72)
                   else d ! p)"
proof -
  from assms obtain voxel where v: "voxel_at voxels (int i + start) = Inr voxel"
    and d1: "d1 = fold (\<lambda>j d. d[i * 72 + j := position_value E (toArray (voxel_position voxel)) j]) [0..<72] d"
    by (auto simp: position_body_def bind_Inr_iff POSITION_def Let_def)
  from v show "0 \<le> int i + start \<and> int i + start < int (length voxels)"
    by (simp add: voxel_at_Inr)
  show "length d1 = length d" by (simp add: d1 fold_update_length)
  from v have "voxel = voxels ! nat (int i + start)" by (simp add: voxel_at_Inr)
  then show "d1 ! p = (if i * 72 \<le> p \<and> p < i * 72 + 72
                   then position_value E (toArray (voxel_position (voxels ! nat (int i + start)))) (p - i * 72)
                   else d ! p)" if "p < length d"
    using that by (simp add: d1 fold_update_nth)
qed

lemma indices_body_step:
  assumes "indices_body E i d = Inr d1"
  shows "length d1 = length d"
    and "p < length d \<Longrightarrow>
         d1 ! p = (if i * 36 \<le> p \<and> p < i * 36 + 36 then index_value E i (p - i * 36) else d ! p)"
proof -
  from assms have d1: "d1 = fold (\<lambda>j d. d[i * 36 + j := index_value E i j]) [0..<36] d"
    by (simp add: indices_body_def INDICES_def)
  show "length d1 = length d" by (simp add: d1 fold_update_length)
  show "d1 ! p = (if i * 36 \<le> p \<and> p < i * 36 + 36 then index_value E i (p - i * 36) else d ! p)"
    if "p < length d"
    using that by (simp add: d1 fold_update_nth)
qed

lemma occlusion_body_step:
  assumes "occlusion_body E nb voxels start i d = Inr d1"
    and "length (GetOcclusions E (voxel_position (voxels ! nat (int i + start))) nb) = 96"
  shows "0 \<le> int i + start \<and> int i + start < int (length voxels)"
    and "length d1 = length d"
    and "p < length d \<Longrightarrow>
         d1 ! p = (if i * 96 \<le> p \<and> p < i * 96 + 96
                   then GetOcclusions E (voxel_position (voxels ! nat (int i + start))) nb ! (p - i * 96)
                   else d ! p)"
proof -
  from assms(1) obtain voxel where v: "voxel_at voxels (int i + start) = Inr voxel"
    and ts: "typed_set d (GetOcclusions E (voxel_position voxel) nb) (i * 96) = Inr d1"
    by (auto simp: occlusion_body_def bind_Inr_iff OCCLUSION_def Let_def)
  from v show "0 \<le> int i + start \<and> int i + start < int (length voxels)"
    by (simp add: voxel_at_Inr)
  from v have veq: "voxel = voxels ! nat (int i + start)" by (simp add: voxel_at_Inr)
  show "length d1 = length d" using typed_set_Inr(2) [OF ts] .
  show "d1 ! p = (if i * 96 \<le> p \<and> p < i * 96 + 96
                   then GetOcclusions E (voxel_position (voxels ! nat (int i + start))) nb ! (p - i * 96)
                   else d ! p)" if "p < length d"
    using typed_set_Inr(3) [OF ts that] assms(2) veq by simp
qed

lemma colour_body_step:
  assumes "colour_body E voxels start i d = Inr d1" and fit: "i * 96 + 96 \<le> length d"
  shows "0 \<le> int i + start \<and> int i + start < int (length voxels)"
    and "length d1 = length d"
    and "p < length d \<Longrightarrow>
         d1 ! p = (if i * 96 \<le> p \<and> p < i * 96 + 96
                   then (let c = voxel_colour (voxels ! nat (int i + start))
                         in map (fround E) [rgba_r c, rgba_g c, rgba_b c, rgba_a c] ! ((p - i * 96) mod 4))
                   else d ! p)"
proof -
  define c where "c = voxel_colour (voxels ! nat (int i + start))"
  define d4 where "d4 = d[i * 96 := fround E (rgba_r c), i * 96 + 1 := fround E (rgba_g c),
                          i * 96 + 2 := fround E (rgba_b c), i * 96 + 3 := fround E (rgba_a c)]"
  from assms(1) obtain voxel where v: "voxel_at voxels (int i + start) = Inr voxel"
    by (auto simp: colour_body_def bind_Inr_iff)
  from v show "0 \<le> int i + start \<and> int i + start < int (length voxels)"
    by (simp add: voxel_at_Inr)
  from v have veq: "voxel = voxels ! nat (int i + start)" by (simp add: voxel_at_Inr)
  from assms(1) v have d1: "d1 = repeatedFill d4 (i * 96) 4 24"
    by (simp add: colour_body_def Let_def d4_def c_def veq)
  have len4: "length d4 = length d" by (simp add: d4_def)
  show "length d1 = length d" by (simp add: d1 repeatedFill_length len4)
  have head: "d4 ! (i * 96 + k) = map (fround E) [rgba_r c, rgba_g c, rgba_b c, rgba_a c] ! k"
    if "k < 4" for k
  proof -
    from that consider "k = 0" | "k = 1" | "k = 2" | "k = 3" by linarith
    then show ?thesis using fit by cases (simp_all add: d4_def)
  qed
  have rest: "d4 ! q = d ! q" if "\<not> (i * 96 \<le> q \<and> q < i * 96 + 4)" for q
    using that by (auto simp: d4_def nth_list_update)
  show "d1 ! p = (if i * 96 \<le> p \<and> p < i * 96 + 96
                   then (let c = voxel_colour (voxels ! nat (int i + start))
                         in map (fround E) [rgba_r c, rgba_g c, rgba_b c, rgba_a c] ! ((p - i * 96) mod 4))
                   else d ! p)" if "p < length d"
  proof (cases "i * 96 \<le> p \<and> p < i * 96 + 96")
    case True
    have "d1 ! p = d4 ! (i * 96 + (p - i * 96) mod 4)"
      using True that by (simp add: d1 repeatedFill_nth len4)
    also have "\<dots> = map (fround E) [rgba_r c, rgba_g c, rgba_b c, rgba_a c] ! ((p - i * 96) mod 4)"
      by (rule head) simp
    finally show ?thesis using True by (simp add: c_def Let_def)
  next
    case False
    then have "d1 ! p = d4 ! p" using that by (auto simp: d1 repeatedFill_nth len4)
    also have "\<dots> = d ! p" using False by (intro rest) auto
    finally show ?thesis using False by auto
  qed
qed

lemma createVoxelMeshBuffer_eq:
  "createVoxelMeshBuffer numVoxels =
     (if numVoxels < 0 then Inl RangeError
      else Inr \<lparr> position = \<lparr> numComponents = 3, data = replicate (nat numVoxels * 72) 0 \<rparr>,
                 colour = \<lparr> numComponents = 4, data = replicate (nat numVoxels * 96) 0 \<rparr>,
                 occlusion = \<lparr> numComponents = 4, data = replicate (nat numVoxels * 96) 1 \<rparr>,
                 texcoord = \<lparr> numComponents = 2, data = replicate (nat numVoxels * 48) 0 \<rparr>,
                 normal = \<lparr> numComponents = 3, data = replicate (nat numVoxels * 72) 0 \<rparr>,
                 indices = \<lparr> numComponents = 3, data = replicate (nat numVoxels * 36) 0 \<rparr> \<rparr>)"
  by (simp add: createVoxelMeshBuffer_def new_Float32Array_def new_Uint32Array_def fill_def
      POSITION_def COLOUR_def OCCLUSION_def TEXCOORD_def NORMAL_def INDICES_def
      mult_less_0_iff nat_mult_distrib)

text \<open>The stages of a call of \<open>_fromVoxelMesh\<close> that returns.\<close>

lemma fromVoxelMesh_Inr:
  fixes E :: "('a::{zero,one,plus}, 'nb) env"
  assumes ret: "fromVoxelMesh E w this k = Inr chunk"
  defines "S \<equiv> VOXEL_BUFFER_CHUNK_SIZE w" and "N \<equiv> this_numTotalVoxels this"
  defines "start \<equiv> voxelsStartIndex S k"
  defines "n \<equiv> nat (numBufferVoxels S N k)"
  shows "start < int N" and "0 \<le> numBufferVoxels S N k"
    and "for_loop [0..<n] (position_body E (this_voxels this) start) (replicate (n * 72) 0)
           = Inr (data (position (buffer chunk)))"
    and "for_loop [0..<n] (colour_body E (this_voxels this) start) (replicate (n * 96) 0)
           = Inr (data (colour (buffer chunk)))"
    and "\<exists>n0. typed_set (replicate (n * 72) 0) (map (fround E) (custom_normal (getBoxBufferData E))) 0 = Inr n0
           \<and> data (normal (buffer chunk)) = repeatedFill n0 0 72 n"
    and "\<exists>t0. typed_set (replicate (n * 48) 0) (map (fround E) (custom_texcoord (getBoxBufferData E))) 0 = Inr t0
           \<and> data (texcoord (buffer chunk)) = repeatedFill t0 0 48 n"
    and "for_loop [0..<n] (indices_body E) (replicate (n * 36) 0) = Inr (data (indices (buffer chunk)))"
    and "if this_createAmbientOcclusionBuffer this
         then \<exists>nb. this_neighbourhood this = Some nb \<and>
                for_loop [0..<n] (occlusion_body E nb (this_voxels this) start) (replicate (n * 96) 1)
                  = Inr (data (occlusion (buffer chunk)))
         else data (occlusion (buffer chunk)) = replicate (n * 96) 1"
    and "numElements chunk = length (data (indices (buffer chunk)))"
    and "moreVoxelsToBuffer chunk \<longleftrightarrow> voxelsEndIndex S N k \<noteq> int N"
    and "progress chunk = of_int start / of_nat N"
    and "numComponents (position (buffer chunk)) = 3 \<and> numComponents (colour (buffer chunk)) = 4 \<and>
         numComponents (occlusion (buffer chunk)) = 4 \<and> numComponents (texcoord (buffer chunk)) = 2 \<and>
         numComponents (normal (buffer chunk)) = 3 \<and> numComponents (indices (buffer chunk)) = 3"
proof -
  from ret show a: "start < int N"
    by (auto simp: fromVoxelMesh_def Let_def ASSERT_def S_def N_def start_def bind_def split: if_splits)
  from ret a have r2: "bind (createVoxelMeshBuffer (numBufferVoxels S N k)) (\<lambda>newBuffer.
      bind (for_loop [0..<n] (position_body E (this_voxels this) start)
              (data (position newBuffer))) (\<lambda>positionData.
      bind (for_loop [0..<n] (colour_body E (this_voxels this) start)
              (data (colour newBuffer))) (\<lambda>colourData.
      bind (typed_set (data (normal newBuffer)) (map (fround E) (custom_normal (getBoxBufferData E))) 0) (\<lambda>n0.
      bind (typed_set (data (texcoord newBuffer)) (map (fround E) (custom_texcoord (getBoxBufferData E))) 0) (\<lambda>t0.
      bind (for_loop [0..<n] (indices_body E) (data (indices newBuffer))) (\<lambda>indicesData.
      bind (if this_createAmbientOcclusionBuffer this
            then (case this_neighbourhood this of
                    None \<Rightarrow> Inl (AssertionFailed ''Assertion Failed'')
                  | Some neighbourhood \<Rightarrow>
                      for_loop [0..<n]
                        (occlusion_body E neighbourhood (this_voxels this) start)
                        (data (occlusion newBuffer)))
            else Inr (data (occlusion newBuffer))) (\<lambda>occlusionData.
      Inr \<lparr> buffer =
              \<lparr> position = (position newBuffer) \<lparr> data := positionData \<rparr>,
                colour = (colour newBuffer) \<lparr> data := colourData \<rparr>,
                occlusion = (occlusion newBuffer) \<lparr> data := occlusionData \<rparr>,
                texcoord = (texcoord newBuffer) \<lparr> data := repeatedFill t0 0 48 n \<rparr>,
                normal = (normal newBuffer) \<lparr> data := repeatedFill n0 0 72 n \<rparr>,
                indices = (indices newBuffer) \<lparr> data := indicesData \<rparr> \<rparr>,
             numElements = length indicesData,
             moreVoxelsToBuffer = (voxelsEndIndex S N k \<noteq> int N),
             progress = of_int start / of_nat N \<rparr>))))))) = Inr chunk"
    unfolding fromVoxelMesh_def Let_def S_def N_def start_def n_def
    by (simp add: ASSERT_def)
  then obtain newBuffer pd cd n0 t0 ixd od where
      nb: "createVoxelMeshBuffer (numBufferVoxels S N k) = Inr newBuffer"
    and pd: "for_loop [0..<n] (position_body E (this_voxels this) start) (data (position newBuffer)) = Inr pd"
    and cd: "for_loop [0..<n] (colour_body E (this_voxels this) start) (data (colour newBuffer)) = Inr cd"
    and n0: "typed_set (data (normal newBuffer)) (map (fround E) (custom_normal (getBoxBufferData E))) 0 = Inr n0"
    and t0: "typed_set (data (texcoord newBuffer)) (map (fround E) (custom_texcoord (getBoxBufferData E))) 0 = Inr t0"
    and ixd: "for_loop [0..<n] (indices_body E) (data (indices newBuffer)) = Inr ixd"
    and od: "(if this_createAmbientOcclusionBuffer this
            then (case this_neighbourhood this of
                    None \<Rightarrow> Inl (AssertionFailed ''Assertion Failed'')
                  | Some neighbourhood \<Rightarrow>
                      for_loop [0..<n]
                        (occlusion_body E neighbourhood (this_voxels this) start)
                        (data (occlusion newBuffer)))
            else Inr (data (occlusion newBuffer))) = Inr od"
    and chunk: "chunk = \<lparr> buffer =
              \<lparr> position = (position newBuffer) \<lparr> data := pd \<rparr>,
                colour = (colour newBuffer) \<lparr> data := cd \<rparr>,
                occlusion = (occlusion newBuffer) \<lparr> data := od \<rparr>,
                texcoord = (texcoord newBuffer) \<lparr> data := repeatedFill t0 0 48 n \<rparr>,
                normal = (normal newBuffer) \<lparr> data := repeatedFill n0 0 72 n \<rparr>,
                indices = (indices newBuffer) \<lparr> data := ixd \<rparr> \<rparr>,
             numElements = length ixd,
             moreVoxelsToBuffer = (voxelsEndIndex S N k \<noteq> int N),
             progress = of_int start / of_nat N \<rparr>"
    unfolding bind_Inr_iff by blast
  from nb show b: "0 \<le> numBufferVoxels S N k"
    by (simp add: createVoxelMeshBuffer_eq split: if_splits)
  from nb b have nbeq: "newBuffer =
     \<lparr> position = \<lparr> numComponents = 3, data = replicate (n * 72) 0 \<rparr>,
       colour = \<lparr> numComponents = 4, data = replicate (n * 96) 0 \<rparr>,
       occlusion = \<lparr> numComponents = 4, data = replicate (n * 96) 1 \<rparr>,
       texcoord = \<lparr> numComponents = 2, data = replicate (n * 48) 0 \<rparr>,
       normal = \<lparr> numComponents = 3, data = replicate (n * 72) 0 \<rparr>,
       indices = \<lparr> numComponents = 3, data = replicate (n * 36) 0 \<rparr> \<rparr>"
    by (simp add: createVoxelMeshBuffer_eq n_def)
  from pd show "for_loop [0..<n] (position_body E (this_voxels this) start) (replicate (n * 72) 0)
           = Inr (data (position (buffer chunk)))"
    by (simp add: chunk nbeq)
  from cd show "for_loop [0..<n] (colour_body E (this_voxels this) start) (replicate (n * 96) 0)
           = Inr (data (colour (buffer chunk)))"
    by (simp add: chunk nbeq)
  from n0 show "\<exists>n0. typed_set (replicate (n * 72) 0) (map (fround E) (custom_normal (getBoxBufferData E))) 0 = Inr n0
           \<and> data (normal (buffer chunk)) = repeatedFill n0 0 72 n"
    by (simp add: chunk nbeq)
  from t0 show "\<exists>t0. typed_set (replicate (n * 48) 0) (map (fround E) (custom_texcoord (getBoxBufferData E))) 0 = Inr t0
           \<and> data (texcoord (buffer chunk)) = repeatedFill t0 0 48 n"
    by (simp add: chunk nbeq)
  from ixd show "for_loop [0..<n] (indices_body E) (replicate (n * 36) 0) = Inr (data (indices (buffer chunk)))"
    by (simp add: chunk nbeq)
  from od show "if this_createAmbientOcclusionBuffer this
         then \<exists>nb. this_neighbourhood this = Some nb \<and>
                for_loop [0..<n] (occlusion_body E nb (this_voxels this) start) (replicate (n * 96) 1)
                  = Inr (data (occlusion (buffer chunk)))
         else data (occlusion (buffer chunk)) = replicate (n * 96) 1"
    by (auto simp: chunk nbeq split: if_splits option.splits)
  show "numElements chunk = length (data (indices (buffer chunk)))" by (simp add: chunk)
  show "moreVoxelsToBuffer chunk \<longleftrightarrow> voxelsEndIndex S N k \<noteq> int N" by (simp add: chunk)
  show "progress chunk = of_int start / of_nat N" by (simp add: chunk)
  show "numComponents (position (buffer chunk)) = 3 \<and> numComponents (colour (buffer chunk)) = 4 \<and>
         numComponents (occlusion (buffer chunk)) = 4 \<and> numComponents (texcoord (buffer chunk)) = 2 \<and>
         numComponents (normal (buffer chunk)) = 3 \<and> numComponents (indices (buffer chunk)) = 3"
    by (simp add: chunk nbeq)
qed

lemma position_body_returns:
  "0 \<le> int i + start \<Longrightarrow> int i + start < int (length voxels) \<Longrightarrow>
   length d = L \<Longrightarrow> \<exists>d1. position_body E voxels start i d = Inr d1 \<and> length d1 = L"
  by (simp add: position_body_def voxel_at_def Let_def fold_update_length)

lemma colour_body_returns:
  "0 \<le> int i + start \<Longrightarrow> int i + start < int (length voxels) \<Longrightarrow>
   length d = L \<Longrightarrow> \<exists>d1. colour_body E voxels start i d = Inr d1 \<and> length d1 = L"
  by (simp add: colour_body_def voxel_at_def Let_def repeatedFill_length)

lemma indices_body_returns:
  "length d = L \<Longrightarrow> \<exists>d1. indices_body E i d = Inr d1 \<and> length d1 = L"
  by (simp add: indices_body_def fold_update_length)

lemma occlusion_body_returns:
  "0 \<le> int i + start \<Longrightarrow> int i + start < int (length voxels) \<Longrightarrow> occlusions_ok E \<Longrightarrow>
   i * 96 + 96 \<le> L \<Longrightarrow> length d = L \<Longrightarrow>
   \<exists>d1. occlusion_body E nb voxels start i d = Inr d1 \<and> length d1 = L"
  by (simp add: occlusion_body_def voxel_at_def Let_def typed_set_def occlusions_ok_def OCCLUSION_def)

text \<open>The arithmetic of a chunk that starts inside the voxels, under a positive chunk size.\<close>

lemma chunk_arith:
  assumes "0 < S" and "int k * S < int N"
  shows "0 \<le> voxelsStartIndex S k" and "0 < numBufferVoxels S N k"
    and "voxelsStartIndex S k + numBufferVoxels S N k \<le> int N"
    and "voxelsStartIndex S k + numBufferVoxels S N k = voxelsEndIndex S N k"
proof -
  show "0 \<le> voxelsStartIndex S k" using assms by (simp add: voxelsStartIndex_def)
  have "int k * S < (int k + 1) * S" using assms by (simp add: distrib_right)
  then show "0 < numBufferVoxels S N k" using assms
    by (simp add: numBufferVoxels_def voxelsEndIndex_def voxelsStartIndex_def)
  show "voxelsStartIndex S k + numBufferVoxels S N k \<le> int N"
    by (simp add: numBufferVoxels_def voxelsEndIndex_def)
  show "voxelsStartIndex S k + numBufferVoxels S N k = voxelsEndIndex S N k"
    by (simp add: numBufferVoxels_def)
qed

lemma fromVoxelMesh_returns:
  fixes E :: "('a::{zero,one,plus}, 'nb) env"
  assumes cube: "cube_ok E"
    and occ: "this_createAmbientOcclusionBuffer this \<Longrightarrow> occlusions_ok E \<and> this_neighbourhood this \<noteq> None"
    and N: "this_numTotalVoxels this = length (this_voxels this)"
    and S: "0 < VOXEL_BUFFER_CHUNK_SIZE w"
    and k: "int k * VOXEL_BUFFER_CHUNK_SIZE w < int (this_numTotalVoxels this)"
  shows "\<exists>chunk. fromVoxelMesh E w this k = Inr chunk"
proof -
  define S where "S = VOXEL_BUFFER_CHUNK_SIZE w"
  define N where "N = this_numTotalVoxels this"
  define start where "start = voxelsStartIndex S k"
  define n where "n = nat (numBufferVoxels S N k)"
  note ar = chunk_arith [OF S [folded S_def] k [folded S_def N_def]]
  have n: "0 < n" "int n = numBufferVoxels S N k" using ar(2) by (simp_all add: n_def)
  have inr: "0 \<le> int i + start" "int i + start < int (length (this_voxels this))" if "i < n" for i
    using that ar(1,3) n N by (simp_all add: start_def N_def)
  have "\<exists>pd. for_loop [0..<n] (position_body E (this_voxels this) start) (replicate (n * 72) 0) = Inr pd
          \<and> length pd = n * 72"
    by (rule for_loop_returns) (auto intro!: position_body_returns inr)
  then obtain pd where pd:
    "for_loop [0..<n] (position_body E (this_voxels this) start) (replicate (n * 72) 0) = Inr pd"
    by blast
  have "\<exists>cd. for_loop [0..<n] (colour_body E (this_voxels this) start) (replicate (n * 96) 0) = Inr cd
          \<and> length cd = n * 96"
    by (rule for_loop_returns) (auto intro!: colour_body_returns inr)
  then obtain cd where cd:
    "for_loop [0..<n] (colour_body E (this_voxels this) start) (replicate (n * 96) 0) = Inr cd"
    by blast
  have "\<exists>n0. typed_set (replicate (n * 72) (0::'a)) (map (fround E) (custom_normal (getBoxBufferData E))) 0 = Inr n0"
    using cube n(1) by (intro typed_set_returns) (simp add: cube_ok_def)
  then obtain n0 where n0:
    "typed_set (replicate (n * 72) (0::'a)) (map (fround E) (custom_normal (getBoxBufferData E))) 0 = Inr n0"
    by blast
  have "\<exists>t0. typed_set (replicate (n * 48) (0::'a)) (map (fround E) (custom_texcoord (getBoxBufferData E))) 0 = Inr t0"
    using cube n(1) by (intro typed_set_returns) (simp add: cube_ok_def)
  then obtain t0 where t0:
    "typed_set (replicate (n * 48) (0::'a)) (map (fround E) (custom_texcoord (getBoxBufferData E))) 0 = Inr t0"
    by blast
  have "\<exists>ixd. for_loop [0..<n] (indices_body E) (replicate (n * 36) 0) = Inr ixd \<and> length ixd = n * 36"
    by (rule for_loop_returns) (auto intro!: indices_body_returns)
  then obtain ixd where ixd: "for_loop [0..<n] (indices_body E) (replicate (n * 36) 0) = Inr ixd"
    by blast
  have "\<exists>od. (if this_createAmbientOcclusionBuffer this
            then (case this_neighbourhood this of
                    None \<Rightarrow> Inl (AssertionFailed ''Assertion Failed'')
                  | Some neighbourhood \<Rightarrow>
                      for_loop [0..<n]
                        (occlusion_body E neighbourhood (this_voxels this) start)
                        (replicate (n * 96) 1))
            else Inr (replicate (n * 96) 1)) = Inr od"
  proof (cases "this_createAmbientOcclusionBuffer this")
    case True
    with occ obtain nb where nb: "this_neighbourhood this = Some nb" and ok: "occlusions_ok E" by auto
    have "\<exists>od. for_loop [0..<n] (occlusion_body E nb (this_voxels this) start) (replicate (n * 96) 1) = Inr od
            \<and> length od = n * 96"
      by (rule for_loop_returns) (auto intro!: occlusion_body_returns inr ok)
    then show ?thesis using True nb by auto
  next
    case False
    then show ?thesis by simp
  qed
  then obtain od where od: "(if this_createAmbientOcclusionBuffer this
            then (case this_neighbourhood this of
                    None \<Rightarrow> Inl (AssertionFailed ''Assertion Failed'')
                  | Some neighbourhood \<Rightarrow>
                      for_loop [0..<n]
                        (occlusion_body E neighbourhood (this_voxels this) start)
                        (replicate (n * 96) 1))
            else Inr (replicate (n * 96) 1)) = Inr od"
    by blast
  have st: "voxelsStartIndex S k < int N" using k by (simp add: voxelsStartIndex_def S_def N_def)
  have cnt: "\<not> numBufferVoxels S N k < 0" using ar(2) by simp
  show ?thesis
    unfolding fromVoxelMesh_def Let_def
    using st cnt pd cd n0 t0 ixd od
    unfolding S_def N_def start_def n_def
    by (cases "this_createAmbientOcclusionBuffer this"; cases "this_neighbourhood this")
      (simp_all add: ASSERT_def createVoxelMeshBuffer_eq)
qed

lemma block_div_mod:
  fixes B :: nat
  assumes "c < B" and "i < n"
  shows "(i * B + c) div B = i \<and> (i * B + c) mod B = c \<and> i * B + c < n * B"
proof -
  from \<open>i < n\<close> have "Suc i \<le> n" by simp
  then have "Suc i * B \<le> n * B" by (rule mult_le_mono1)
  then show ?thesis using assms by simp
qed

lemma for_loop_length:
  assumes "\<And>i d d1. body i d = Inr d1 \<Longrightarrow> length d1 = length d"
    and "for_loop js body d = Inr d'"
  shows "length d' = length d"
  using assms(2)
proof (induction js arbitrary: d)
  case Nil
  then show ?case by simp
next
  case (Cons j js)
  then obtain dm where "body j d = Inr dm" "for_loop js body dm = Inr d'"
    by (auto simp: bind_Inr_iff)
  then show ?case using Cons.IH [of dm] assms(1) [of j d dm] by simp
qed

lemma occlusion_body_length:
  "occlusion_body E nb voxels start i d = Inr d1 \<Longrightarrow> length d1 = length d"
  by (auto simp: occlusion_body_def bind_Inr_iff Let_def dest: typed_set_Inr(2))

lemma chunk_position:
  fixes E :: "('a::{zero,one,plus}, 'nb) env"
  assumes ret: "fromVoxelMesh E w this k = Inr chunk"
  defines "start \<equiv> voxelsStartIndex (VOXEL_BUFFER_CHUNK_SIZE w) k"
  defines "n \<equiv> nat (numBufferVoxels (VOXEL_BUFFER_CHUNK_SIZE w) (this_numTotalVoxels this) k)"
  shows "length (data (position (buffer chunk))) = n * 72"
    and "i < n \<Longrightarrow> c < 72 \<Longrightarrow>
         data (position (buffer chunk)) ! (i * 72 + c) =
           position_value E (toArray (voxel_position (this_voxels this ! nat (int i + start)))) c"
proof -
  note run = fromVoxelMesh_Inr(3) [OF ret, folded start_def n_def]
  have *: "length (data (position (buffer chunk))) = n * 72 \<and>
     (\<forall>p<n * 72. data (position (buffer chunk)) ! p =
        (if p < n * 72
         then position_value E (toArray (voxel_position (this_voxels this ! nat (int (p div 72) + start)))) (p mod 72)
         else replicate (n * 72) 0 ! p))"
    by (rule for_loop_blocks [OF _ run, where g = "\<lambda>i. position_value E (toArray (voxel_position (this_voxels this ! nat (int i + start))))"])
      (simp_all add: position_body_step(2,3))
  then show "length (data (position (buffer chunk))) = n * 72" by simp
  assume "i < n" "c < 72"
  then show "data (position (buffer chunk)) ! (i * 72 + c) =
           position_value E (toArray (voxel_position (this_voxels this ! nat (int i + start)))) c"
    using * block_div_mod [of c 72 i n] by simp
qed

lemma chunk_indices:
  fixes E :: "('a::{zero,one,plus}, 'nb) env"
  assumes ret: "fromVoxelMesh E w this k = Inr chunk"
  defines "n \<equiv> nat (numBufferVoxels (VOXEL_BUFFER_CHUNK_SIZE w) (this_numTotalVoxels this) k)"
  shows "length (data (indices (buffer chunk))) = n * 36"
    and "i < n \<Longrightarrow> c < 36 \<Longrightarrow> data (indices (buffer chunk)) ! (i * 36 + c) = index_value E i c"
proof -
  note run = fromVoxelMesh_Inr(7) [OF ret, folded n_def]
  have *: "length (data (indices (buffer chunk))) = n * 36 \<and>
     (\<forall>p<n * 36. data (indices (buffer chunk)) ! p =
        (if p < n * 36 then index_value E (p div 36) (p mod 36) else replicate (n * 36) 0 ! p))"
    by (rule for_loop_blocks [OF _ run, where g = "index_value E"])
      (simp_all add: indices_body_step)
  then show "length (data (indices (buffer chunk))) = n * 36" by simp
  assume "i < n" "c < 36"
  then show "data (indices (buffer chunk)) ! (i * 36 + c) = index_value E i c"
    using * block_div_mod [of c 36 i n] by simp
qed

lemma chunk_colour:
  fixes E :: "('a::{zero,one,plus}, 'nb) env"
  assumes ret: "fromVoxelMesh E w this k = Inr chunk"
  defines "start \<equiv> voxelsStartIndex (VOXEL_BUFFER_CHUNK_SIZE w) k"
  defines "n \<equiv> nat (numBufferVoxels (VOXEL_BUFFER_CHUNK_SIZE w) (this_numTotalVoxels this) k)"
  shows "length (data (colour (buffer chunk))) = n * 96"
    and "i < n \<Longrightarrow> c < 96 \<Longrightarrow>
         data (colour (buffer chunk)) ! (i * 96 + c) =
           (let col = voxel_colour (this_voxels this ! nat (int i + start))
            in map (fround E) [rgba_r col, rgba_g col, rgba_b col, rgba_a col] ! (c mod 4))"
proof -
  note run = fromVoxelMesh_Inr(4) [OF ret, folded start_def n_def]
  have *: "length (data (colour (buffer chunk))) = n * 96 \<and>
     (\<forall>p<n * 96. data (colour (buffer chunk)) ! p =
        (if p < n * 96
         then (let col = voxel_colour (this_voxels this ! nat (int (p div 96) + start))
               in map (fround E) [rgba_r col, rgba_g col, rgba_b col, rgba_a col] ! (p mod 96 mod 4))
         else replicate (n * 96) 0 ! p))"
  proof (rule for_loop_blocks [OF _ run, where g = "\<lambda>i j. (let col = voxel_colour (this_voxels this ! nat (int i + start))
               in map (fround E) [rgba_r col, rgba_g col, rgba_b col, rgba_a col] ! (j mod 4))"])
    fix i d d1
    assume i: "i < n" and len: "length d = n * 96"
      and body: "colour_body E (this_voxels this) start i d = Inr d1"
    have fit: "i * 96 + 96 \<le> length d" using block_div_mod [of 95 96 i n] i len by simp
    show "length d1 = n * 96 \<and>
       (\<forall>p<n * 96. d1 ! p =
          (if i * 96 \<le> p \<and> p < i * 96 + 96
           then (let col = voxel_colour (this_voxels this ! nat (int i + start))
                 in map (fround E) [rgba_r col, rgba_g col, rgba_b col, rgba_a col] ! ((p - i * 96) mod 4))
           else d ! p))"
      using colour_body_step(2,3) [OF body fit] len by simp
  qed simp
  then show "length (data (colour (buffer chunk))) = n * 96" by simp
  assume "i < n" "c < 96"
  then show "data (colour (buffer chunk)) ! (i * 96 + c) =
           (let col = voxel_colour (this_voxels this ! nat (int i + start))
            in map (fround E) [rgba_r col, rgba_g col, rgba_b col, rgba_a col] ! (c mod 4))"
    using * block_div_mod [of c 96 i n] by simp
qed

lemma chunk_occlusion:
  fixes E :: "('a::{zero,one,plus}, 'nb) env"
  assumes ret: "fromVoxelMesh E w this k = Inr chunk"
  defines "start \<equiv> voxelsStartIndex (VOXEL_BUFFER_CHUNK_SIZE w) k"
  defines "n \<equiv> nat (numBufferVoxels (VOXEL_BUFFER_CHUNK_SIZE w) (this_numTotalVoxels this) k)"
  shows "length (data (occlusion (buffer chunk))) = n * 96"
    and "\<not> this_createAmbientOcclusionBuffer this \<Longrightarrow> data (occlusion (buffer chunk)) = replicate (n * 96) 1"
    and "this_createAmbientOcclusionBuffer this \<Longrightarrow> occlusions_ok E \<Longrightarrow> i < n \<Longrightarrow> c < 96 \<Longrightarrow>
         data (occlusion (buffer chunk)) ! (i * 96 + c) =
           GetOcclusions E (voxel_position (this_voxels this ! nat (int i + start)))
             (the (this_neighbourhood this)) ! c"
proof -
  note st = fromVoxelMesh_Inr(8) [OF ret, folded start_def n_def]
  show off: "data (occlusion (buffer chunk)) = replicate (n * 96) 1"
    if "\<not> this_createAmbientOcclusionBuffer this"
    using st that by simp
  have on: "length (data (occlusion (buffer chunk))) = n * 96 \<and>
     (occlusions_ok E \<longrightarrow> (\<forall>p<n * 96. data (occlusion (buffer chunk)) ! p =
        (if p < n * 96
         then GetOcclusions E (voxel_position (this_voxels this ! nat (int (p div 96) + start)))
                (the (this_neighbourhood this)) ! (p mod 96)
         else replicate (n * 96) 1 ! p)))"
    if ao: "this_createAmbientOcclusionBuffer this"
  proof -
    from st ao obtain nb where nb: "this_neighbourhood this = Some nb"
      and run: "for_loop [0..<n] (occlusion_body E nb (this_voxels this) start) (replicate (n * 96) 1)
                  = Inr (data (occlusion (buffer chunk)))"
      by auto
    have len: "length (data (occlusion (buffer chunk))) = n * 96"
      using for_loop_length [OF occlusion_body_length run] by simp
    have "\<forall>p<n * 96. data (occlusion (buffer chunk)) ! p =
        (if p < n * 96
         then GetOcclusions E (voxel_position (this_voxels this ! nat (int (p div 96) + start))) nb ! (p mod 96)
         else replicate (n * 96) 1 ! p)" if ok: "occlusions_ok E"
    proof -
      have "length (data (occlusion (buffer chunk))) = n * 96 \<and>
        (\<forall>p<n * 96. data (occlusion (buffer chunk)) ! p =
          (if p < n * 96
           then GetOcclusions E (voxel_position (this_voxels this ! nat (int (p div 96) + start))) nb ! (p mod 96)
           else replicate (n * 96) 1 ! p))"
        by (rule for_loop_blocks [OF _ run, where g = "\<lambda>i. (!) (GetOcclusions E (voxel_position (this_voxels this ! nat (int i + start))) nb)"])
          (use ok in \<open>simp_all add: occlusion_body_step(2,3) occlusions_ok_def\<close>)
      then show ?thesis by simp
    qed
    then show ?thesis using len nb by simp
  qed
  show "length (data (occlusion (buffer chunk))) = n * 96"
    using on off by (cases "this_createAmbientOcclusionBuffer this") simp_all
  show "data (occlusion (buffer chunk)) ! (i * 96 + c) =
           GetOcclusions E (voxel_position (this_voxels this ! nat (int i + start)))
             (the (this_neighbourhood this)) ! c"
    if "this_createAmbientOcclusionBuffer this" "occlusions_ok E" "i < n" "c < 96"
    using on [OF that(1)] that block_div_mod [of c 96 i n] by simp
qed

text \<open>A template of \<open>B\<close> entries, stored at the front and repeated over \<open>n\<close> slots.\<close>

lemma template_repeated:
  assumes ts: "typed_set (replicate (n * B) z) (map f template) 0 = Inr t0"
    and len: "length template = B" and i: "i < n" and c: "c < B"
  shows "length (repeatedFill t0 0 B n) = n * B"
    and "repeatedFill t0 0 B n ! (i * B + c) = f (template ! c)"
proof -
  have l0: "length t0 = n * B" using typed_set_Inr(2) [OF ts] by simp
  then show "length (repeatedFill t0 0 B n) = n * B" by (simp add: repeatedFill_length)
  note bl = block_div_mod [OF c i]
  have "0 < n" using i by simp
  from block_div_mod [OF c this] have "c < n * B" by simp
  then have "t0 ! c = f (template ! c)"
    using typed_set_Inr(3) [OF ts, of c] c len by simp
  then show "repeatedFill t0 0 B n ! (i * B + c) = f (template ! c)"
    using bl l0 by (simp add: repeatedFill_nth)
qed

lemma chunk_normal:
  fixes E :: "('a::{zero,one,plus}, 'nb) env"
  assumes ret: "fromVoxelMesh E w this k = Inr chunk"
    and len: "length (custom_normal (getBoxBufferData E)) = 72"
  defines "n \<equiv> nat (numBufferVoxels (VOXEL_BUFFER_CHUNK_SIZE w) (this_numTotalVoxels this) k)"
  shows "i < n \<Longrightarrow> c < 72 \<Longrightarrow>
         data (normal (buffer chunk)) ! (i * 72 + c) = fround E (custom_normal (getBoxBufferData E) ! c)"
    and "0 < n" and "length (data (normal (buffer chunk))) = n * 72"
proof -
  from fromVoxelMesh_Inr(5) [OF ret, folded n_def] obtain n0 where
    ts: "typed_set (replicate (n * 72) 0) (map (fround E) (custom_normal (getBoxBufferData E))) 0 = Inr n0"
    and eq: "data (normal (buffer chunk)) = repeatedFill n0 0 72 n"
    by blast
  show "data (normal (buffer chunk)) ! (i * 72 + c) = fround E (custom_normal (getBoxBufferData E) ! c)"
    if "i < n" "c < 72"
    using template_repeated(2) [OF ts len that] eq by simp
  from typed_set_Inr(1) [OF ts] len show "0 < n" by (cases n) simp_all
  show "length (data (normal (buffer chunk))) = n * 72"
    using typed_set_Inr(2) [OF ts] by (simp add: eq repeatedFill_length)
qed

lemma chunk_texcoord:
  fixes E :: "('a::{zero,one,plus}, 'nb) env"
  assumes ret: "fromVoxelMesh E w this k = Inr chunk"
    and len: "length (custom_texcoord (getBoxBufferData E)) = 48"
  defines "n \<equiv> nat (numBufferVoxels (VOXEL_BUFFER_CHUNK_SIZE w) (this_numTotalVoxels this) k)"
  shows "i < n \<Longrightarrow> c < 48 \<Longrightarrow>
         data (texcoord (buffer chunk)) ! (i * 48 + c) = fround E (custom_texcoord (getBoxBufferData E) ! c)"
    and "length (data (texcoord (buffer chunk))) = n * 48"
proof -
  from fromVoxelMesh_Inr(6) [OF ret, folded n_def] obtain t0 where
    ts: "typed_set (replicate (n * 48) 0) (map (fround E) (custom_texcoord (getBoxBufferData E))) 0 = Inr t0"
    and eq: "data (texcoord (buffer chunk)) = repeatedFill t0 0 48 n"
    by blast
  show "data (texcoord (buffer chunk)) ! (i * 48 + c) = fround E (custom_texcoord (getBoxBufferData E) ! c)"
    if "i < n" "c < 48"
    using template_repeated(2) [OF ts len that] eq by simp
  show "length (data (texcoord (buffer chunk))) = n * 48"
    using typed_set_Inr(2) [OF ts] by (simp add: eq repeatedFill_length)
qed

subsection \<open>Builders\<close>

lemma getNext_Inr:
  "getNext E w this = (Inr chunk, this') \<longleftrightarrow>
     fromVoxelMesh E w this (this_nextChunkIndex this) = Inr chunk \<and>
     this' = this \<lparr> this_cache := (this_cache this)(this_nextChunkIndex this \<mapsto> chunk),
                    this_nextChunkIndex := this_nextChunkIndex this + 1 \<rparr>"
  by (auto simp: getNext_def split: sum.splits)

lemma getNext_Inl:
  "getNext E w this = (Inl e, this') \<longleftrightarrow>
     fromVoxelMesh E w this (this_nextChunkIndex this) = Inl e \<and> this' = this"
  by (auto simp: getNext_def split: sum.splits)

lemma reachable_snapshot:
  "reachable E w0 voxelMesh ao this \<Longrightarrow> snapshot_of E w0 voxelMesh ao this"
proof (induction rule: reachable.induct)
  case (constructed this)
  then show ?case
    by (auto simp: constructor_def snapshot_of_def getVoxels_def getVoxelCount_def)
next
  case (produced this w r this')
  then show ?case
    by (cases r) (auto simp: getNext_Inr getNext_Inl snapshot_of_def)
next
  case (looked_up this index c this')
  then show ?case by (simp add: getFromIndex_def)
qed

subsection \<open>The small instance\<close>

lemma ex_cube_ok: "cube_ok ex_env"
  by (simp add: cube_ok_def ex_env_def ex_cube_def)

lemma ex_occlusions_ok: "occlusions_ok ex_env"
  by (simp add: occlusions_ok_def ex_env_def)

lemma ex_indices_local: "indices_local ex_env"
  by (simp add: indices_local_def ex_env_def ex_cube_def list_all_iff unat_of_nat) 

lemma ex_constructor: "constructor ex_env (ex_world S) 0 ao = Inr (ex_builder ao 0)"
  by (simp add: constructor_def ex_builder_def ex_world_def ex_env_def getVoxels_def
      getVoxelCount_def ex_mesh_def)

lemma ex_reachable: "reachable ex_env (ex_world S) 0 ao (ex_builder ao 0)"
  by (rule reachable.constructed) (rule ex_constructor)

lemma ex_getNext:
  assumes "0 < S" and "S < 3"
  shows "\<exists>chunk this'. getNext ex_env (ex_world S) (ex_builder ao 0) = (Inr chunk, this')"
proof -
  have "\<exists>chunk. fromVoxelMesh ex_env (ex_world S) (ex_builder ao 0) 0 = Inr chunk"
    using assms
    by (intro fromVoxelMesh_returns ex_cube_ok)
      (simp_all add: ex_builder_def ex_world_def ex_mesh_def ex_occlusions_ok)
  then show ?thesis by (auto simp: getNext_Inr ex_builder_def)
qed

subsection \<open>Runs of calls\<close>

lemma getNext_fst: "fst (getNext E w this) = fromVoxelMesh E w this (this_nextChunkIndex this)"
  by (simp add: getNext_def split: sum.splits)

lemma fromVoxelMesh_cong:
  assumes "this_voxels a = this_voxels b" and "this_numTotalVoxels a = this_numTotalVoxels b"
    and "this_createAmbientOcclusionBuffer a = this_createAmbientOcclusionBuffer b"
    and "this_neighbourhood a = this_neighbourhood b"
    and "VOXEL_BUFFER_CHUNK_SIZE w = VOXEL_BUFFER_CHUNK_SIZE w'"
  shows "fromVoxelMesh E w a k = fromVoxelMesh E w' b k"
  unfolding fromVoxelMesh_def assms ..

lemma getNext_world:
  "VOXEL_BUFFER_CHUNK_SIZE w = VOXEL_BUFFER_CHUNK_SIZE w' \<Longrightarrow> getNext E w this = getNext E w' this"
  by (simp add: getNext_def fromVoxelMesh_cong [of this this w w'])

lemma successes_Cons:
  "successes (Inl e # rs) = successes rs" "successes (Inr c # rs) = c # successes rs"
  "successes [] = []"
  by (simp_all add: successes_def)

text \<open>The cursor counts the chunks produced, and the cache holds them by their number.\<close>

lemma getNext_calls_state:
  assumes "getNext_calls E ws this = (rs, this')"
  shows "this_nextChunkIndex this' = this_nextChunkIndex this + length (successes rs) \<and>
         (\<forall>k. this_cache this' k =
            (if this_nextChunkIndex this \<le> k \<and> k < this_nextChunkIndex this + length (successes rs)
             then Some (successes rs ! (k - this_nextChunkIndex this)) else this_cache this k))"
  using assms
proof (induction ws arbitrary: this rs)
  case Nil
  then show ?case by (auto simp: successes_Cons)
next
  case (Cons w ws)
  obtain r this1 where g: "getNext E w this = (r, this1)" by (cases "getNext E w this")
  obtain rs1 where run: "getNext_calls E ws this1 = (rs1, this')" and rs: "rs = r # rs1"
    using Cons.prems g by (auto split: prod.splits)
  note IH = Cons.IH [OF run]
  show ?case
  proof (cases r)
    case (Inl e)
    with g have "this1 = this" by (simp add: getNext_Inl)
    with IH show ?thesis by (simp add: rs Inl successes_Cons)
  next
    case (Inr c)
    with g have this1: "this1 = this \<lparr> this_cache := (this_cache this)(this_nextChunkIndex this \<mapsto> c),
                    this_nextChunkIndex := this_nextChunkIndex this + 1 \<rparr>"
      by (simp add: getNext_Inr)
    show ?thesis
    proof (intro conjI allI)
      show "this_nextChunkIndex this' = this_nextChunkIndex this + length (successes rs)"
        using IH by (simp add: rs Inr successes_Cons this1)
      fix k
      show "this_cache this' k =
            (if this_nextChunkIndex this \<le> k \<and> k < this_nextChunkIndex this + length (successes rs)
             then Some (successes rs ! (k - this_nextChunkIndex this)) else this_cache this k)"
      proof (cases "k = this_nextChunkIndex this")
        case True
        then show ?thesis using IH by (simp add: rs Inr successes_Cons this1)
      next
        case False
        then have "this_nextChunkIndex this \<le> k \<longleftrightarrow> Suc (this_nextChunkIndex this) \<le> k" by auto
        moreover have "(c # successes rs1) ! (k - this_nextChunkIndex this) =
             successes rs1 ! (k - Suc (this_nextChunkIndex this))"
          if "Suc (this_nextChunkIndex this) \<le> k"
          using that by (simp add: nth_Cons')
        ultimately show ?thesis using IH False
          by (simp add: rs Inr successes_Cons this1)
      qed
    qed
  qed
qed

lemma getNext_calls_Cons:
  "fst (getNext_calls E (w # ws) this) =
     fst (getNext E w this) # fst (getNext_calls E ws (snd (getNext E w this)))"
  by (simp add: split_beta Let_def)

lemma getNext_calls_length: "length (fst (getNext_calls E ws this)) = length ws"
  by (induction ws arbitrary: this) (simp_all add: split_beta Let_def)

declare getNext_calls.simps(2) [simp del]

lemma getNext_returns:
  fixes E :: "('a::{zero,one,plus}, 'nb) env"
  assumes "cube_ok E" and "builder_ok E this"
    and "0 < VOXEL_BUFFER_CHUNK_SIZE w"
    and "int (this_nextChunkIndex this) * VOXEL_BUFFER_CHUNK_SIZE w < int (this_numTotalVoxels this)"
  shows "\<exists>chunk. getNext E w this =
           (Inr chunk, this \<lparr> this_cache := (this_cache this)(this_nextChunkIndex this \<mapsto> chunk),
                              this_nextChunkIndex := this_nextChunkIndex this + 1 \<rparr>)"
proof -
  have "\<exists>chunk. fromVoxelMesh E w this (this_nextChunkIndex this) = Inr chunk"
    using assms by (intro fromVoxelMesh_returns) (simp_all add: builder_ok_def)
  then show ?thesis by (auto simp: getNext_Inr)
qed

text \<open>While every call so far had a chunk to produce, call \<open>j\<close> produces chunk \<open>j\<close>.\<close>

lemma getNext_calls_prefix:
  fixes E :: "('a::{zero,one,plus}, 'nb) env"
  assumes cube: "cube_ok E"
    and "builder_ok E this"
    and "j < length ws"
    and "\<forall>i\<le>j. 0 < VOXEL_BUFFER_CHUNK_SIZE (ws ! i) \<and>
           int (this_nextChunkIndex this + i) * VOXEL_BUFFER_CHUNK_SIZE (ws ! i)
             < int (this_numTotalVoxels this)"
  shows "fst (getNext_calls E ws this) ! j = fromVoxelMesh E (ws ! j) this (this_nextChunkIndex this + j)"
  using assms(2-)
proof (induction ws arbitrary: this j)
  case Nil
  then show ?case by simp
next
  case (Cons w ws)
  show ?case
  proof (cases j)
    case 0
    then show ?thesis by (simp add: getNext_calls_Cons getNext_fst)
  next
    case (Suc j')
    from Cons.prems(3) have first: "0 < VOXEL_BUFFER_CHUNK_SIZE w"
      "int (this_nextChunkIndex this) * VOXEL_BUFFER_CHUNK_SIZE w < int (this_numTotalVoxels this)"
      by (auto dest: spec [of _ 0])
    from getNext_returns [OF cube Cons.prems(1) first] obtain chunk where
      g: "getNext E w this =
           (Inr chunk, this \<lparr> this_cache := (this_cache this)(this_nextChunkIndex this \<mapsto> chunk),
                              this_nextChunkIndex := this_nextChunkIndex this + 1 \<rparr>)"
      by blast
    define this1 where "this1 = this \<lparr> this_cache := (this_cache this)(this_nextChunkIndex this \<mapsto> chunk),
                              this_nextChunkIndex := this_nextChunkIndex this + 1 \<rparr>"
    have ok1: "builder_ok E this1" using Cons.prems(1) by (simp add: builder_ok_def this1_def)
    have j': "j' < length ws" using Cons.prems(2) Suc by simp
    have rest: "\<forall>i\<le>j'. 0 < VOXEL_BUFFER_CHUNK_SIZE (ws ! i) \<and>
           int (this_nextChunkIndex this1 + i) * VOXEL_BUFFER_CHUNK_SIZE (ws ! i)
             < int (this_numTotalVoxels this1)"
    proof (intro allI impI)
      fix i assume "i \<le> j'"
      then have "Suc i \<le> j" using Suc by simp
      with Cons.prems(3) have "0 < VOXEL_BUFFER_CHUNK_SIZE ((w # ws) ! Suc i) \<and>
           int (this_nextChunkIndex this + Suc i) * VOXEL_BUFFER_CHUNK_SIZE ((w # ws) ! Suc i)
             < int (this_numTotalVoxels this)"
        by blast
      then show "0 < VOXEL_BUFFER_CHUNK_SIZE (ws ! i) \<and>
           int (this_nextChunkIndex this1 + i) * VOXEL_BUFFER_CHUNK_SIZE (ws ! i)
             < int (this_numTotalVoxels this1)"
        by (simp add: this1_def)
    qed
    have "fst (getNext_calls E (w # ws) this) ! j = fst (getNext_calls E ws this1) ! j'"
      by (simp add: getNext_calls_Cons g Suc this1_def)
    also have "\<dots> = fromVoxelMesh E (ws ! j') this1 (this_nextChunkIndex this1 + j')"
      by (rule Cons.IH [OF ok1 j' rest])
    also have "\<dots> = fromVoxelMesh E (ws ! j') this (this_nextChunkIndex this1 + j')"
      by (rule fromVoxelMesh_cong) (simp_all add: this1_def)
    also have "\<dots> = fromVoxelMesh E ((w # ws) ! j) this (this_nextChunkIndex this + j)"
      by (simp add: Suc this1_def)
    finally show ?thesis .
  qed
qed

lemma getNext_calls_all_return:
  fixes E :: "('a::{zero,one,plus}, 'nb) env"
  assumes cube: "cube_ok E"
    and ok: "builder_ok E this"
    and all: "\<forall>i<length ws. 0 < VOXEL_BUFFER_CHUNK_SIZE (ws ! i) \<and>
           int (this_nextChunkIndex this + i) * VOXEL_BUFFER_CHUNK_SIZE (ws ! i)
             < int (this_numTotalVoxels this)"
  shows "\<exists>cs. fst (getNext_calls E ws this) = map Inr cs \<and> length cs = length ws \<and>
           successes (fst (getNext_calls E ws this)) = cs \<and>
           (\<forall>j<length ws. fromVoxelMesh E (ws ! j) this (this_nextChunkIndex this + j) = Inr (cs ! j))"
proof -
  define rs where "rs = fst (getNext_calls E ws this)"
  have len: "length rs = length ws" by (simp add: rs_def getNext_calls_length)
  have nth: "rs ! j = fromVoxelMesh E (ws ! j) this (this_nextChunkIndex this + j)"
    if "j < length ws" for j
    unfolding rs_def using all that by (intro getNext_calls_prefix [OF cube ok]) auto
  have ret: "\<exists>c. fromVoxelMesh E (ws ! j) this (this_nextChunkIndex this + j) = Inr c"
    if "j < length ws" for j
    using cube ok all that by (intro fromVoxelMesh_returns) (simp_all add: builder_ok_def)
  have rs: "rs = map Inr (map projr rs)"
  proof (rule nth_equalityI)
    show "length rs = length (map Inr (map projr rs))" by simp
    fix j assume "j < length rs"
    then show "rs ! j = map Inr (map projr rs) ! j"
      using nth [of j] ret [of j] len by auto
  qed
  have succ: "successes (map Inr cs) = cs" for cs :: "'a TBuffer_VoxelMesh list"
    by (induction cs) (simp_all add: successes_Cons)
  have "successes rs = map projr rs"
    using arg_cong [OF rs, of successes] by (simp only: succ)
  moreover have "fromVoxelMesh E (ws ! j) this (this_nextChunkIndex this + j) = Inr (map projr rs ! j)"
    if "j < length ws" for j
    using nth [OF that] ret [OF that] that len by auto
  ultimately show ?thesis using rs len unfolding rs_def [symmetric]
    by (intro exI [of _ "map projr rs"]) simp
qed

lemma ex_builder_ok: "builder_ok ex_env (ex_builder ao k)"
  by (simp add: builder_ok_def ex_builder_def ex_mesh_def ex_occlusions_ok)

lemma getNext_calls_world:
  "map VOXEL_BUFFER_CHUNK_SIZE ws = map VOXEL_BUFFER_CHUNK_SIZE ws' \<Longrightarrow>
   getNext_calls E ws this = getNext_calls E ws' this"
proof (induction ws arbitrary: ws' this)
  case Nil
  then show ?case by simp
next
  case (Cons w ws)
  then obtain w' ws1 where ws': "ws' = w' # ws1"
    and w: "VOXEL_BUFFER_CHUNK_SIZE w = VOXEL_BUFFER_CHUNK_SIZE w'"
    and rest: "map VOXEL_BUFFER_CHUNK_SIZE ws = map VOXEL_BUFFER_CHUNK_SIZE ws1"
    by (cases ws') auto
  show ?case
    by (simp add: ws' getNext_calls.simps(2) getNext_world [OF w] Cons.IH [OF rest])
qed

text \<open>A chunk size of zero or less: the call fails, on the assertion when the chunk
  would start at or past the last voxel, on a \<open>RangeError\<close> of the typed arrays otherwise.\<close>

lemma getNext_nonpositive:
  fixes E :: "('a::{zero,one,plus}, 'nb) env"
  assumes "cube_ok E" and "VOXEL_BUFFER_CHUNK_SIZE w \<le> 0"
  shows "getNext E w this =
     (Inl (if int (this_numTotalVoxels this) \<le> int (this_nextChunkIndex this) * VOXEL_BUFFER_CHUNK_SIZE w
           then AssertionFailed ''Invalid voxel start index'' else RangeError), this)"
proof -
  define S where "S = VOXEL_BUFFER_CHUNK_SIZE w"
  define N where "N = this_numTotalVoxels this"
  define k where "k = this_nextChunkIndex this"
  have normal: "length (custom_normal (getBoxBufferData E)) = 72"
    using assms(1) by (simp add: cube_ok_def)
  consider (past) "int N \<le> int k * S" | (neg) "int k * S < int N" "S < 0"
    | (zero) "int k * S < int N" "S = 0"
    using assms(2) by (fold S_def) linarith
  then have "fromVoxelMesh E w this k =
     Inl (if int N \<le> int k * S then AssertionFailed ''Invalid voxel start index'' else RangeError)"
  proof cases
    case past
    then show ?thesis
      by (simp add: fromVoxelMesh_def Let_def ASSERT_def voxelsStartIndex_def S_def N_def)
  next
    case neg
    have "(int k + 1) * S \<le> int N" using neg by (simp add: distrib_right)
    then have "numBufferVoxels S N k < 0"
      using neg by (simp add: numBufferVoxels_def voxelsEndIndex_def voxelsStartIndex_def distrib_right)
    then show ?thesis using neg(1)
      unfolding fromVoxelMesh_def Let_def S_def N_def
      by (simp add: ASSERT_def voxelsStartIndex_def createVoxelMeshBuffer_eq)
  next
    case zero
    then have "numBufferVoxels S N k = 0"
      by (simp add: numBufferVoxels_def voxelsEndIndex_def voxelsStartIndex_def)
    then show ?thesis using zero(1) normal
      unfolding fromVoxelMesh_def Let_def S_def N_def
      by (simp add: ASSERT_def voxelsStartIndex_def createVoxelMeshBuffer_eq typed_set_def)
  qed
  then show ?thesis
    by (simp add: getNext_def S_def N_def k_def)
qed

lemma constructor_builder:
  assumes "constructor E w0 voxelMesh ao = Inr this0" and "ao \<longrightarrow> occlusions_ok E"
  shows "builder_ok E this0" and "this_nextChunkIndex this0 = 0"
    and "this_numTotalVoxels this0 = length (meshes w0 voxelMesh)"
    and "this_voxels this0 = meshes w0 voxelMesh"
  using assms by (auto simp: constructor_def builder_ok_def getVoxels_def getVoxelCount_def)

text \<open>The number of chunks: the least \<open>n\<close> with \<open>N \<le> n * S\<close>.\<close>

lemma ceil_div:
  fixes S N :: int
  assumes "0 < S" and "0 < N"
  defines "q \<equiv> (N + S - 1) div S"
  shows "0 < q" and "N \<le> q * S" and "(q - 1) * S < N"
proof -
  define r where "r = (N + S - 1) mod S"
  have r: "0 \<le> r" "r < S" using assms(1) by (simp_all add: r_def)
  have eq: "q * S + r = N + S - 1" by (simp add: q_def r_def)
  from eq r show "N \<le> q * S" by linarith
  from eq r have "q * S - S < N" by linarith
  then show "(q - 1) * S < N" by (simp add: left_diff_distrib)
  show "0 < q"
  proof (rule ccontr)
    assume "\<not> 0 < q"
    then have "q * S \<le> 0" using assms(1) by (simp add: mult_le_0_iff)
    with \<open>N \<le> q * S\<close> assms(2) show False by linarith
  qed
qed

lemma getNext_asserts:
  "int (this_numTotalVoxels this) \<le> int (this_nextChunkIndex this) * VOXEL_BUFFER_CHUNK_SIZE w \<Longrightarrow>
   getNext E w this = (Inl (AssertionFailed ''Invalid voxel start index''), this)"
  by (simp add: getNext_def fromVoxelMesh_def Let_def ASSERT_def voxelsStartIndex_def)

section \<open>The claims\<close>

text \<open>
  C1. Under a chunk size \<open>S > 0\<close> that stays the same, and with \<open>k * S\<close> below the number
  \<open>N\<close> of voxels, call \<open>k\<close> (from 0) on a new builder returns a chunk of
  \<open>count = min ((k + 1) * S) N - k * S\<close> voxels: its buffers have the lengths of \<open>count\<close>
  voxels, \<open>numElements\<close> is \<open>36 * count\<close>, the length of the index buffer, \<open>progress\<close>
  is \<open>k * S / N\<close>, \<open>moreVoxelsToBuffer\<close> says whether \<open>min ((k + 1) * S) N\<close> differs
  from \<open>N\<close>, and local voxel \<open>i\<close> is voxel \<open>k * S + i\<close> of the mesh.
\<close>

theorem kth_call_chunk:
  fixes E :: "('a::{zero,one,plus}, 'nb) env"
  assumes "cube_ok E" and "ao \<longrightarrow> occlusions_ok E"
    and "constructor E w0 voxelMesh ao = Inr this0"
    and "\<forall>w\<in>set ws. VOXEL_BUFFER_CHUNK_SIZE w = S"
    and "0 < S" and "k < length ws"
  defines "N \<equiv> length (meshes w0 voxelMesh)"
  assumes "int k * S < int N"
  defines "endIndex \<equiv> min ((int k + 1) * S) (int N)"
  defines "count \<equiv> nat (endIndex - int k * S)"
  shows "\<exists>chunk. fst (getNext_calls E ws this0) ! k = Inr chunk
     \<and> 0 < count
     \<and> length (data (position (buffer chunk))) = count * 72
     \<and> length (data (colour (buffer chunk))) = count * 96
     \<and> length (data (occlusion (buffer chunk))) = count * 96
     \<and> length (data (texcoord (buffer chunk))) = count * 48
     \<and> length (data (normal (buffer chunk))) = count * 72
     \<and> length (data (indices (buffer chunk))) = count * 36
     \<and> numElements chunk = 36 * count
     \<and> numElements chunk = length (data (indices (buffer chunk)))
     \<and> progress chunk = of_int (int k * S) / of_nat N
     \<and> (moreVoxelsToBuffer chunk \<longleftrightarrow> endIndex \<noteq> int N)
     \<and> (\<forall>i<count. \<forall>c<72. data (position (buffer chunk)) ! (i * 72 + c) =
           fround E (custom_position (getBoxBufferData E) ! c
             + toArray (voxel_position (meshes w0 voxelMesh ! (nat (int k * S) + i))) ! (c mod 3)))
     \<and> (\<forall>i<count. \<forall>c<4. data (colour (buffer chunk)) ! (i * 96 + c) =
           fround E (let col = voxel_colour (meshes w0 voxelMesh ! (nat (int k * S) + i))
                     in [rgba_r col, rgba_g col, rgba_b col, rgba_a col] ! c))"
proof -
  note b = constructor_builder [OF assms(3,2)]
  have Sk: "VOXEL_BUFFER_CHUNK_SIZE (ws ! i) = S" if "i \<le> k" for i
    using assms(4,6) that by simp
  have "int i * S < int N" if "i \<le> k" for i
  proof -
    have "int i * S \<le> int k * S" using that \<open>0 < S\<close> by (intro mult_right_mono) simp_all
    then show ?thesis using assms(8) by simp
  qed
  then have sizes: "\<forall>i\<le>k. 0 < VOXEL_BUFFER_CHUNK_SIZE (ws ! i) \<and>
           int (this_nextChunkIndex this0 + i) * VOXEL_BUFFER_CHUNK_SIZE (ws ! i)
             < int (this_numTotalVoxels this0)"
    using Sk \<open>0 < S\<close> b(2,3) by (simp add: N_def)
  have kth: "fst (getNext_calls E ws this0) ! k = fromVoxelMesh E (ws ! k) this0 k"
    using getNext_calls_prefix [OF assms(1) b(1) assms(6) sizes] b(2) by simp
  have "\<exists>chunk. fromVoxelMesh E (ws ! k) this0 k = Inr chunk"
    using assms(1) b(1) sizes b(2)
    by (intro fromVoxelMesh_returns) (auto simp: builder_ok_def)
  then obtain chunk where ret: "fromVoxelMesh E (ws ! k) this0 k = Inr chunk" by blast
  have cnt: "nat (numBufferVoxels (VOXEL_BUFFER_CHUNK_SIZE (ws ! k)) (this_numTotalVoxels this0) k) = count"
    by (simp add: Sk b(3) numBufferVoxels_def voxelsEndIndex_def voxelsStartIndex_def count_def
        endIndex_def N_def)
  have start: "voxelsStartIndex (VOXEL_BUFFER_CHUNK_SIZE (ws ! k)) k = int k * S"
    by (simp add: Sk voxelsStartIndex_def)
  have start0: "0 \<le> int k * S" using \<open>0 < S\<close> by simp
  have pos: "0 < count"
    using chunk_arith(2) [OF \<open>0 < S\<close> assms(8)]
    by (simp add: count_def endIndex_def numBufferVoxels_def voxelsEndIndex_def voxelsStartIndex_def)
  have lens: "length (data (position (buffer chunk))) = count * 72"
    "length (data (colour (buffer chunk))) = count * 96"
    "length (data (occlusion (buffer chunk))) = count * 96"
    "length (data (indices (buffer chunk))) = count * 36"
    using chunk_position(1) [OF ret] chunk_colour(1) [OF ret] chunk_occlusion(1) [OF ret]
      chunk_indices(1) [OF ret]
    by (simp_all add: cnt)
  have lens2: "length (data (texcoord (buffer chunk))) = count * 48"
    "length (data (normal (buffer chunk))) = count * 72"
    using chunk_texcoord(2) [OF ret] chunk_normal(3) [OF ret] assms(1)
    by (simp_all add: cnt cube_ok_def)
  have ne: "numElements chunk = length (data (indices (buffer chunk)))"
    by (rule fromVoxelMesh_Inr(9) [OF ret])
  have prog: "progress chunk = of_int (int k * S) / of_nat N"
    using fromVoxelMesh_Inr(11) [OF ret] by (simp add: start b(3) N_def)
  have more: "moreVoxelsToBuffer chunk \<longleftrightarrow> endIndex \<noteq> int N"
    using fromVoxelMesh_Inr(10) [OF ret]
    by (simp add: Sk b(3) voxelsEndIndex_def endIndex_def N_def)
  have position: "data (position (buffer chunk)) ! (i * 72 + c) =
           fround E (custom_position (getBoxBufferData E) ! c
             + toArray (voxel_position (meshes w0 voxelMesh ! (nat (int k * S) + i))) ! (c mod 3))"
    if "i < count" "c < 72" for i c
  proof -
    have "nat (int i + int k * S) = nat (int k * S) + i" using start0 by simp
    then show ?thesis
      using chunk_position(2) [OF ret, of i c] that assms(1)
      by (simp add: cnt start b(4) position_value_def cube_ok_def)
  qed
  have colour: "data (colour (buffer chunk)) ! (i * 96 + c) =
           fround E (let col = voxel_colour (meshes w0 voxelMesh ! (nat (int k * S) + i))
                     in [rgba_r col, rgba_g col, rgba_b col, rgba_a col] ! c)"
    if "i < count" "c < 4" for i c
  proof -
    have "nat (int i + int k * S) = nat (int k * S) + i" using start0 by simp
    moreover have "c < 96" "c mod 4 = c" using that by simp_all
    moreover have "map (fround E) [p, q, r, s] ! c = fround E ([p, q, r, s] ! c)" for p q r s
      using that by (intro nth_map) simp
    ultimately show ?thesis
      using chunk_colour(2) [OF ret, of i c] that
      by (simp only: cnt start b(4) Let_def)
  qed
  show ?thesis
    using kth ret pos lens lens2 ne prog more position colour
    by (intro exI [of _ chunk]) simp
qed

theorem kth_call_chunk_witness:
  "\<exists>chunk. fst (getNext_calls ex_env [ex_world 2, ex_world 2] (ex_builder True 0)) ! 1 = Inr chunk
     \<and> length (data (position (buffer chunk))) = 72
     \<and> numElements chunk = 36
     \<and> progress chunk = 2 / 3
     \<and> \<not> moreVoxelsToBuffer chunk
     \<and> data (position (buffer chunk)) ! 4 = 22"
proof -
  have sizes: "\<forall>w\<in>set [ex_world 2, ex_world 2]. VOXEL_BUFFER_CHUNK_SIZE w = 2"
    by (simp add: ex_world_def)
  have occ: "True \<longrightarrow> occlusions_ok ex_env" by (simp add: ex_occlusions_ok)
  have k: "int 1 * 2 < int (length (meshes (ex_world 2) 0))"
    by (simp add: ex_world_def ex_mesh_def)
  from kth_call_chunk [OF ex_cube_ok occ ex_constructor [of 2 True] sizes _ _ k]
  obtain chunk where
    c: "fst (getNext_calls ex_env [ex_world 2, ex_world 2] (ex_builder True 0)) ! 1 = Inr chunk"
    and len: "length (data (position (buffer chunk))) =
           nat (min ((int 1 + 1) * 2) (int (length (meshes (ex_world 2) 0))) - int 1 * 2) * 72"
    and ne: "numElements chunk =
           36 * nat (min ((int 1 + 1) * 2) (int (length (meshes (ex_world 2) 0))) - int 1 * 2)"
    and pr: "progress chunk = of_int (int 1 * 2) / of_nat (length (meshes (ex_world 2) 0))"
    and mo: "moreVoxelsToBuffer chunk \<longleftrightarrow>
           min ((int 1 + 1) * 2) (int (length (meshes (ex_world 2) 0))) \<noteq> int (length (meshes (ex_world 2) 0))"
    and po: "\<forall>i<nat (min ((int 1 + 1) * 2) (int (length (meshes (ex_world 2) 0))) - int 1 * 2).
           \<forall>c<72. data (position (buffer chunk)) ! (i * 72 + c) =
           fround ex_env (custom_position (getBoxBufferData ex_env) ! c
             + toArray (voxel_position (meshes (ex_world 2) 0 ! (nat (int 1 * 2) + i))) ! (c mod 3))"
    by auto
  have m: "meshes (ex_world 2) 0 = ex_mesh" by (simp add: ex_world_def)
  have l: "length ex_mesh = 3" by (simp add: ex_mesh_def)
  have "data (position (buffer chunk)) ! 4 = 22"
    using po [rule_format, of 0 4]
    by (simp add: m l) (simp add: ex_env_def ex_cube_def ex_mesh_def toArray_def)
  moreover have "length (data (position (buffer chunk))) = 72" using len by (simp add: m l)
  moreover have "numElements chunk = 36" using ne by (simp add: m l)
  moreover have "progress chunk = 2 / 3" using pr by (simp add: m l)
  moreover have "\<not> moreVoxelsToBuffer chunk" using mo by (simp add: m l)
  ultimately show ?thesis using c by blast
qed



text \<open>
  C3. In every produced chunk, component \<open>c\<close> of local voxel \<open>i\<close> in the index buffer is
  the template's index \<open>c\<close> plus \<open>24 * i\<close>, held as an unsigned 32-bit number. With a
  template whose indices are local (0 to 23), every index of voxel \<open>i\<close> lies from
  \<open>24 * i\<close> to \<open>24 * i + 23\<close>, in the voxel's own block of 24 vertices, as long as
  \<open>24 * i + 23\<close> is below \<open>2 ^ 32\<close>; that is so for every voxel of every chunk of a
  mesh of at most 178,956,970 voxels.
\<close>

theorem index_buffer_own_block:
  fixes E :: "('a::{zero,one,plus}, 'nb) env"
  assumes "cube_ok E"
    and "reachable E w0 voxelMesh ao this"
    and "getNext E w this = (Inr chunk, this')"
  defines "count \<equiv> numBufferVoxels (VOXEL_BUFFER_CHUNK_SIZE w) (length (meshes w0 voxelMesh))
                      (this_nextChunkIndex this)"
  assumes "int i < count" and "c < 36"
  shows "data (indices (buffer chunk)) ! (i * 36 + c) =
           cube_indices (getBoxBufferData E) ! c + word_of_nat (i * 24)
       \<and> (indices_local E \<longrightarrow> 24 * i + 23 < 2 ^ 32 \<longrightarrow>
           24 * i \<le> unat (data (indices (buffer chunk)) ! (i * 36 + c)) \<and>
           unat (data (indices (buffer chunk)) ! (i * 36 + c)) \<le> 24 * i + 23)
       \<and> (indices_local E \<longrightarrow> length (meshes w0 voxelMesh) \<le> 178956970 \<longrightarrow>
           24 * i \<le> unat (data (indices (buffer chunk)) ! (i * 36 + c)) \<and>
           unat (data (indices (buffer chunk)) ! (i * 36 + c)) \<le> 24 * i + 23)"
proof -
  note snap = reachable_snapshot [OF assms(2), unfolded snapshot_of_def]
  from assms(3) have ret: "fromVoxelMesh E w this (this_nextChunkIndex this) = Inr chunk"
    by (simp add: getNext_Inr)
  have i: "i < nat (numBufferVoxels (VOXEL_BUFFER_CHUNK_SIZE w) (this_numTotalVoxels this)
                      (this_nextChunkIndex this))"
    using assms(5) snap by (simp add: count_def)
  have eq: "data (indices (buffer chunk)) ! (i * 36 + c) =
           cube_indices (getBoxBufferData E) ! c + word_of_nat (i * 24)"
    using chunk_indices(2) [OF ret i \<open>c < 36\<close>] assms(1) \<open>c < 36\<close>
    by (simp add: index_value_def cube_ok_def INDICES_PER_VOXEL_def)
  have range: "24 * i \<le> unat (data (indices (buffer chunk)) ! (i * 36 + c)) \<and>
           unat (data (indices (buffer chunk)) ! (i * 36 + c)) \<le> 24 * i + 23"
    if loc: "indices_local E" and fit: "24 * i + 23 < 2 ^ 32"
  proof -
    define t where "t = cube_indices (getBoxBufferData E) ! c"
    have "t \<in> set (cube_indices (getBoxBufferData E))"
      using assms(1) \<open>c < 36\<close> by (simp add: t_def cube_ok_def)
    with loc have t: "unat t < 24" by (simp add: indices_local_def list_all_iff)
    have "unat (word_of_nat (i * 24) :: 32 word) = i * 24"
      using fit by (subst unat_of_nat) simp
    with t fit have "unat (t + word_of_nat (i * 24)) = unat t + i * 24"
      by (simp add: unat_word_ariths)
    with t show ?thesis by (simp add: eq t_def [symmetric])
  qed
  have small: "24 * i + 23 < 2 ^ 32" if N: "length (meshes w0 voxelMesh) \<le> 178956970"
  proof -
    have S: "0 < VOXEL_BUFFER_CHUNK_SIZE w"
    proof (rule ccontr)
      assume "\<not> 0 < VOXEL_BUFFER_CHUNK_SIZE w"
      then have "VOXEL_BUFFER_CHUNK_SIZE w \<le> 0" by simp
      from getNext_nonpositive [OF assms(1) this, of this] assms(3) show False by simp
    qed
    then have "0 \<le> voxelsStartIndex (VOXEL_BUFFER_CHUNK_SIZE w) (this_nextChunkIndex this)"
      by (simp add: voxelsStartIndex_def)
    then have "count \<le> int (length (meshes w0 voxelMesh))"
      by (simp add: count_def numBufferVoxels_def voxelsEndIndex_def)
    with assms(5) N have "i < 178956970" by simp
    then show ?thesis by simp
  qed
  from eq range small show ?thesis by blast
qed

theorem index_buffer_own_block_witness:
  "\<exists>chunk this'. getNext ex_env (ex_world 2) (ex_builder False 0) = (Inr chunk, this')
     \<and> data (indices (buffer chunk)) ! (1 * 36 + 30) = 6 + 24
     \<and> 24 * 1 \<le> unat (data (indices (buffer chunk)) ! (1 * 36 + 30))
     \<and> unat (data (indices (buffer chunk)) ! (1 * 36 + 30)) \<le> 24 * 1 + 23"
proof -
  obtain chunk this' where
    g: "getNext ex_env (ex_world 2) (ex_builder False 0) = (Inr chunk, this')"
    using ex_getNext [of 2 False] by auto
  have "int 1 < numBufferVoxels (VOXEL_BUFFER_CHUNK_SIZE (ex_world 2))
                  (length (meshes (ex_world 2) 0)) (this_nextChunkIndex (ex_builder False 0))"
    by (simp add: numBufferVoxels_def voxelsEndIndex_def voxelsStartIndex_def ex_world_def
        ex_mesh_def ex_builder_def)
  from index_buffer_own_block [OF ex_cube_ok ex_reachable g this, of 30] ex_indices_local
  have "data (indices (buffer chunk)) ! (1 * 36 + 30) = 6 + 24
     \<and> 24 * 1 \<le> unat (data (indices (buffer chunk)) ! (1 * 36 + 30))
     \<and> unat (data (indices (buffer chunk)) ! (1 * 36 + 30)) \<le> 24 * 1 + 23"
    by (simp add: ex_env_def ex_cube_def)
  with g show ?thesis by blast
qed

text \<open>
  C4. In every produced chunk, the 24 vertices of local voxel \<open>i\<close> all hold the colour
  of voxel \<open>start + i\<close>, its four channels as the buffer stores them, and the normal and
  texcoord slots of every voxel hold the template's 24 normals and 24 texture coordinates,
  whatever the voxel's position and colour.
\<close>

theorem colour_normal_texcoord_replicated:
  fixes E :: "('a::{zero,one,plus}, 'nb) env"
  assumes "cube_ok E"
    and "reachable E w0 voxelMesh ao this"
    and "getNext E w this = (Inr chunk, this')"
  defines "start \<equiv> voxelsStartIndex (VOXEL_BUFFER_CHUNK_SIZE w) (this_nextChunkIndex this)"
  defines "count \<equiv> numBufferVoxels (VOXEL_BUFFER_CHUNK_SIZE w) (length (meshes w0 voxelMesh))
                      (this_nextChunkIndex this)"
  assumes "int i < count"
  defines "col \<equiv> voxel_colour (meshes w0 voxelMesh ! nat (start + int i))"
  shows "(\<forall>v<24. \<forall>c<4. data (colour (buffer chunk)) ! (i * 96 + (4 * v + c)) =
            fround E ([rgba_r col, rgba_g col, rgba_b col, rgba_a col] ! c))
       \<and> (\<forall>j<72. data (normal (buffer chunk)) ! (i * 72 + j) =
            fround E (custom_normal (getBoxBufferData E) ! j))
       \<and> (\<forall>j<48. data (texcoord (buffer chunk)) ! (i * 48 + j) =
            fround E (custom_texcoord (getBoxBufferData E) ! j))"
proof -
  note snap = reachable_snapshot [OF assms(2), unfolded snapshot_of_def]
  from assms(3) have ret: "fromVoxelMesh E w this (this_nextChunkIndex this) = Inr chunk"
    by (simp add: getNext_Inr)
  have i: "i < nat (numBufferVoxels (VOXEL_BUFFER_CHUNK_SIZE w) (this_numTotalVoxels this)
                      (this_nextChunkIndex this))"
    using assms(6) snap by (simp add: count_def)
  have "data (colour (buffer chunk)) ! (i * 96 + (4 * v + c)) =
            fround E ([rgba_r col, rgba_g col, rgba_b col, rgba_a col] ! c)"
    if "v < 24" "c < 4" for v c
  proof -
    have "4 * v + c < 96" using that by simp
    from chunk_colour(2) [OF ret i this] snap that
    have "data (colour (buffer chunk)) ! (i * 96 + (4 * v + c)) =
            map (fround E) [rgba_r col, rgba_g col, rgba_b col, rgba_a col] ! c"
      by (simp add: Let_def col_def start_def add.commute)
    moreover have "map (fround E) [rgba_r col, rgba_g col, rgba_b col, rgba_a col] ! c =
        fround E ([rgba_r col, rgba_g col, rgba_b col, rgba_a col] ! c)"
      using that by (intro nth_map) simp
    ultimately show ?thesis by (simp only:)
  qed
  moreover have "data (normal (buffer chunk)) ! (i * 72 + j) =
            fround E (custom_normal (getBoxBufferData E) ! j)" if "j < 72" for j
    using chunk_normal(1) [OF ret _ i that] assms(1) by (simp add: cube_ok_def)
  moreover have "data (texcoord (buffer chunk)) ! (i * 48 + j) =
            fround E (custom_texcoord (getBoxBufferData E) ! j)" if "j < 48" for j
    using chunk_texcoord(1) [OF ret _ i that] assms(1) by (simp add: cube_ok_def)
  ultimately show ?thesis by blast
qed

theorem colour_normal_texcoord_replicated_witness:
  "\<exists>chunk this'. getNext ex_env (ex_world 2) (ex_builder False 0) = (Inr chunk, this')
     \<and> data (colour (buffer chunk)) ! (1 * 96 + (4 * 23 + 2)) = 7
     \<and> data (normal (buffer chunk)) ! (1 * 72 + 5) = 2
     \<and> data (texcoord (buffer chunk)) ! (1 * 48 + 3) = 1"
proof -
  obtain chunk this' where
    g: "getNext ex_env (ex_world 2) (ex_builder False 0) = (Inr chunk, this')"
    using ex_getNext [of 2 False] by auto
  have "int 1 < numBufferVoxels (VOXEL_BUFFER_CHUNK_SIZE (ex_world 2))
                  (length (meshes (ex_world 2) 0)) (this_nextChunkIndex (ex_builder False 0))"
    by (simp add: numBufferVoxels_def voxelsEndIndex_def voxelsStartIndex_def ex_world_def
        ex_mesh_def ex_builder_def)
  note t = colour_normal_texcoord_replicated [OF ex_cube_ok ex_reachable [of 2] g this]
  have "data (colour (buffer chunk)) ! (1 * 96 + (4 * 23 + 2)) = 7"
    using t [THEN conjunct1, rule_format, of 23 2]
    by (simp add: ex_env_def ex_world_def ex_mesh_def ex_builder_def voxelsStartIndex_def)
  moreover have "data (normal (buffer chunk)) ! (1 * 72 + 5) = 2"
    using t [THEN conjunct2, THEN conjunct1, rule_format, of 5]
    by (simp add: ex_env_def ex_cube_def)
  moreover have "data (texcoord (buffer chunk)) ! (1 * 48 + 3) = 1"
    using t [THEN conjunct2, THEN conjunct2, rule_format, of 3]
    by (simp add: ex_env_def ex_cube_def)
  ultimately show ?thesis using g by blast
qed

text \<open>
  C5. With occlusion buffering disabled at construction, every component of the occlusion
  buffer of every produced chunk is 1. With it enabled, the block of 96 entries of local
  voxel \<open>i\<close> is what the occlusion calculator gives for the position of voxel \<open>start + i\<close>
  and the neighbourhood built at construction from the mesh.
\<close>

theorem occlusion_buffer_contents:
  fixes E :: "('a::{zero,one,plus}, 'nb) env"
  assumes "reachable E w0 voxelMesh ao this"
    and "getNext E w this = (Inr chunk, this')"
  defines "start \<equiv> voxelsStartIndex (VOXEL_BUFFER_CHUNK_SIZE w) (this_nextChunkIndex this)"
  defines "count \<equiv> numBufferVoxels (VOXEL_BUFFER_CHUNK_SIZE w) (length (meshes w0 voxelMesh))
                      (this_nextChunkIndex this)"
  shows "(\<not> ao \<longrightarrow> data (occlusion (buffer chunk)) = replicate (nat count * 96) 1)
       \<and> (ao \<longrightarrow> occlusions_ok E \<longrightarrow>
            (\<forall>i. int i < count \<longrightarrow>
               take 96 (drop (i * 96) (data (occlusion (buffer chunk)))) =
                 GetOcclusions E (voxel_position (meshes w0 voxelMesh ! nat (start + int i)))
                   (process E (meshes w0 voxelMesh))))"
proof (intro conjI impI allI)
  note snap = reachable_snapshot [OF assms(1), unfolded snapshot_of_def]
  from assms(2) have ret: "fromVoxelMesh E w this (this_nextChunkIndex this) = Inr chunk"
    by (simp add: getNext_Inr)
  show "data (occlusion (buffer chunk)) = replicate (nat count * 96) 1" if "\<not> ao"
    using chunk_occlusion(2) [OF ret] snap that by (simp add: count_def)
  fix i
  assume ao: ao and ok: "occlusions_ok E" and "int i < count"
  then have i: "i < nat (numBufferVoxels (VOXEL_BUFFER_CHUNK_SIZE w) (this_numTotalVoxels this)
                      (this_nextChunkIndex this))"
    using snap by (simp add: count_def)
  define occ where "occ = GetOcclusions E (voxel_position (meshes w0 voxelMesh ! nat (start + int i)))
                   (process E (meshes w0 voxelMesh))"
  have locc: "length occ = 96" using ok by (simp add: occ_def occlusions_ok_def)
  have len: "length (data (occlusion (buffer chunk))) =
      nat (numBufferVoxels (VOXEL_BUFFER_CHUNK_SIZE w) (this_numTotalVoxels this)
                      (this_nextChunkIndex this)) * 96"
    by (rule chunk_occlusion(1) [OF ret])
  have fit: "i * 96 + 96 \<le> length (data (occlusion (buffer chunk)))"
    using block_div_mod [of 95 96, OF _ i] len by simp
  have nth: "data (occlusion (buffer chunk)) ! (i * 96 + c) = occ ! c" if "c < 96" for c
    using chunk_occlusion(3) [OF ret _ ok i that] snap ao
    by (simp add: occ_def start_def add.commute)
  show "take 96 (drop (i * 96) (data (occlusion (buffer chunk)))) = occ"
    using fit locc by (intro nth_equalityI) (simp_all add: nth)
qed

theorem occlusion_buffer_contents_witness:
  "(\<exists>chunk this'. getNext ex_env (ex_world 2) (ex_builder False 0) = (Inr chunk, this')
      \<and> data (occlusion (buffer chunk)) = replicate (2 * 96) 1)
   \<and> (\<exists>chunk this'. getNext ex_env (ex_world 2) (ex_builder True 0) = (Inr chunk, this')
      \<and> take 96 (drop (1 * 96) (data (occlusion (buffer chunk)))) = replicate 96 14)"
proof -
  have cnt: "numBufferVoxels (VOXEL_BUFFER_CHUNK_SIZE (ex_world 2))
               (length (meshes (ex_world 2) 0)) (this_nextChunkIndex (ex_builder ao 0)) = 2" for ao
    by (simp add: numBufferVoxels_def voxelsEndIndex_def voxelsStartIndex_def ex_world_def
        ex_mesh_def ex_builder_def)
  obtain chunk this' where
    g: "getNext ex_env (ex_world 2) (ex_builder False 0) = (Inr chunk, this')"
    using ex_getNext [of 2 False] by auto
  have "data (occlusion (buffer chunk)) = replicate (2 * 96) 1"
    using occlusion_buffer_contents [OF ex_reachable [of 2] g, THEN conjunct1] by (simp add: cnt)
  with g have off: "\<exists>chunk this'. getNext ex_env (ex_world 2) (ex_builder False 0) = (Inr chunk, this')
      \<and> data (occlusion (buffer chunk)) = replicate (2 * 96) 1"
    by blast
  obtain chunk1 this1 where
    g1: "getNext ex_env (ex_world 2) (ex_builder True 0) = (Inr chunk1, this1)"
    using ex_getNext [of 2 True] by auto
  have "take 96 (drop (1 * 96) (data (occlusion (buffer chunk1)))) = replicate 96 14"
    using occlusion_buffer_contents [OF ex_reachable [of 2] g1, THEN conjunct2, rule_format, of 1]
      ex_occlusions_ok
    by (simp add: cnt) (simp add: ex_env_def ex_world_def ex_mesh_def ex_builder_def voxelsStartIndex_def)
  with g1 off show ?thesis by blast
qed

text \<open>
  C6. Under a chunk size \<open>S > 0\<close> that stays the same, on a new builder of a mesh of
  \<open>N > 0\<close> voxels, the first \<open>ceil (N / S)\<close> calls all return a chunk; all but the last
  say that more voxels remain, and the last that none do, so that a caller who stops there
  has made exactly \<open>ceil (N / S)\<close> calls; the voxel counts of the chunks add up to \<open>N\<close>;
  the values of \<open>progress\<close> increase strictly from call to call; and one more call fails.
\<close>

theorem all_chunks:
  fixes E :: "('a::{zero,one,plus}, 'nb) env"
  assumes "cube_ok E" and "ao \<longrightarrow> occlusions_ok E"
    and "constructor E w0 voxelMesh ao = Inr this0"
    and "\<forall>w\<in>set ws. VOXEL_BUFFER_CHUNK_SIZE w = S"
    and "0 < S"
  defines "N \<equiv> length (meshes w0 voxelMesh)"
  assumes "0 < N" and "int (length ws) = (int N + S - 1) div S"
  shows "\<exists>cs. fst (getNext_calls E ws this0) = map Inr cs
     \<and> length cs = length ws
     \<and> map moreVoxelsToBuffer cs = replicate (length ws - 1) True @ [False]
     \<and> (\<Sum>c\<leftarrow>cs. numElements c div 36) = N
     \<and> sorted_wrt (<) (map progress cs)
     \<and> (\<forall>w. VOXEL_BUFFER_CHUNK_SIZE w = S \<longrightarrow>
           fst (getNext E w (snd (getNext_calls E ws this0)))
             = Inl (AssertionFailed ''Invalid voxel start index''))"
proof -
  define n where "n = length ws"
  note b = constructor_builder [OF assms(3,2)]
  have N0: "0 < int N" using \<open>0 < N\<close> by simp
  note q = ceil_div [OF \<open>0 < S\<close> N0, folded assms(8)]
  have n: "0 < n" "int N \<le> int n * S" "(int n - 1) * S < int N"
    using q by (simp_all add: n_def)
  have Sj: "VOXEL_BUFFER_CHUNK_SIZE (ws ! j) = S" if "j < n" for j
    using assms(4) that by (simp add: n_def)
  have lt: "int j * S < int N" if "j < n" for j
  proof -
    have "int j \<le> int n - 1" using that by simp
    then have "int j * S \<le> (int n - 1) * S" using \<open>0 < S\<close> by (intro mult_right_mono) simp_all
    then show ?thesis using n(3) by simp
  qed
  have all: "\<forall>i<length ws. 0 < VOXEL_BUFFER_CHUNK_SIZE (ws ! i) \<and>
           int (this_nextChunkIndex this0 + i) * VOXEL_BUFFER_CHUNK_SIZE (ws ! i)
             < int (this_numTotalVoxels this0)"
    using Sj lt \<open>0 < S\<close> b(2,3) by (simp add: N_def n_def)
  from getNext_calls_all_return [OF assms(1) b(1) all] obtain cs where
    run: "fst (getNext_calls E ws this0) = map Inr cs" and len: "length cs = n"
    and succ: "successes (fst (getNext_calls E ws this0)) = cs"
    and ret: "\<And>j. j < n \<Longrightarrow> fromVoxelMesh E (ws ! j) this0 j = Inr (cs ! j)"
    using b(2) by (auto simp: n_def)
  define f :: "nat \<Rightarrow> int" where "f m = min (int m * S) (int N)" for m
  have count: "int (numElements (cs ! j) div 36) = f (Suc j) - f j" if "j < n" for j
  proof -
    have "numElements (cs ! j) =
        nat (numBufferVoxels (VOXEL_BUFFER_CHUNK_SIZE (ws ! j)) (this_numTotalVoxels this0) j) * 36"
      using fromVoxelMesh_Inr(9) [OF ret [OF that]] chunk_indices(1) [OF ret [OF that]] by simp
    moreover have "0 \<le> numBufferVoxels S N j"
      using chunk_arith(2) [OF \<open>0 < S\<close> lt [OF that]] by simp
    moreover have "numBufferVoxels S N j = f (Suc j) - f j"
      using lt [OF that]
      by (simp add: numBufferVoxels_def voxelsEndIndex_def voxelsStartIndex_def f_def
          add.commute)
    ultimately show ?thesis by (simp add: Sj [OF that] b(3) N_def)
  qed
  have "int (\<Sum>c\<leftarrow>cs. numElements c div 36) = (\<Sum>j<n. int (numElements (cs ! j) div 36))"
    by (simp add: sum_list_sum_nth len atLeast0LessThan)
  also have "\<dots> = (\<Sum>j<n. f (Suc j) - f j)"
    by (intro sum.cong) (simp_all add: count)
  also have "\<dots> = f n - f 0" by (rule sum_lessThan_telescope)
  also have "\<dots> = int N" using n(2) by (simp add: f_def)
  finally have total: "(\<Sum>c\<leftarrow>cs. numElements c div 36) = N" by simp
  have more: "moreVoxelsToBuffer (cs ! j) \<longleftrightarrow> j < n - 1" if "j < n" for j
  proof -
    have "moreVoxelsToBuffer (cs ! j) \<longleftrightarrow> (int j + 1) * S < int N"
      using fromVoxelMesh_Inr(10) [OF ret [OF that]]
      by (auto simp: Sj [OF that] b(3) N_def voxelsEndIndex_def min_def)
    also have "\<dots> \<longleftrightarrow> j < n - 1"
    proof
      assume a: "(int j + 1) * S < int N"
      show "j < n - 1"
      proof (rule ccontr)
        assume "\<not> j < n - 1"
        then have "int n \<le> int j + 1" by simp
        then have "int n * S \<le> (int j + 1) * S" using \<open>0 < S\<close> by (intro mult_right_mono) simp_all
        with a n(2) show False by simp
      qed
    next
      assume "j < n - 1"
      then have "Suc j < n" by simp
      from lt [OF this] show "(int j + 1) * S < int N" by (simp add: add.commute)
    qed
    finally show ?thesis .
  qed
  have flags: "map moreVoxelsToBuffer cs = replicate (n - 1) True @ [False]"
  proof (rule nth_equalityI)
    show "length (map moreVoxelsToBuffer cs) = length (replicate (n - 1) True @ [False])"
      using n(1) by (simp add: len)
    fix j assume "j < length (map moreVoxelsToBuffer cs)"
    then have j: "j < n" by (simp add: len)
    then show "map moreVoxelsToBuffer cs ! j = (replicate (n - 1) True @ [False]) ! j"
      using more [OF j] by (auto simp: len nth_append)
  qed
  have prog: "progress (cs ! j) = of_int (int j * S) / of_nat N" if "j < n" for j
    using fromVoxelMesh_Inr(11) [OF ret [OF that]]
    by (simp add: Sj [OF that] b(3) N_def voxelsStartIndex_def)
  have sorted: "sorted_wrt (<) (map progress cs)"
  proof (subst sorted_wrt_iff_nth_less, intro allI impI)
    fix i j assume ij: "i < j" "j < length (map progress cs)"
    then have j: "j < n" and i: "i < n" by (simp_all add: len)
    have "int i * S < int j * S" using ij(1) \<open>0 < S\<close> by simp
    then have "(of_int (int i * S) :: rat) < of_int (int j * S)" by (simp only: of_int_less_iff)
    then have "(of_int (int i * S) :: rat) / of_nat N < of_int (int j * S) / of_nat N"
      using \<open>0 < N\<close> by (intro divide_strict_right_mono) simp_all
    then show "map progress cs ! i < map progress cs ! j"
      using i j by (simp add: len prog)
  qed
  have after: "fst (getNext E w (snd (getNext_calls E ws this0)))
             = Inl (AssertionFailed ''Invalid voxel start index'')"
    if w: "VOXEL_BUFFER_CHUNK_SIZE w = S" for w
  proof -
    obtain rs this1 where r: "getNext_calls E ws this0 = (rs, this1)"
      by (cases "getNext_calls E ws this0")
    from getNext_calls_state [OF r] succ len b(2)
    have cur: "this_nextChunkIndex this1 = n" by (simp add: r)
    have "this_numTotalVoxels this1 = N"
    proof -
      have "this_numTotalVoxels (snd (getNext_calls E xs t)) = this_numTotalVoxels t"
        for xs and t :: "('a, 'nb) BufferGenerator_VoxelMesh"
      proof (induction xs arbitrary: t)
        case Nil
        then show ?case by simp
      next
        case (Cons x xs)
        have "this_numTotalVoxels (snd (getNext E x t)) = this_numTotalVoxels t"
          by (simp add: getNext_def split: sum.splits)
        then show ?case by (simp add: getNext_calls.simps(2) split_beta Let_def Cons.IH)
      qed
      from this [of ws this0] show ?thesis by (simp add: r b(3) N_def)
    qed
    with cur n(2) w have "getNext E w this1 = (Inl (AssertionFailed ''Invalid voxel start index''), this1)"
      by (intro getNext_asserts) simp
    then show ?thesis by (simp add: r)
  qed
  show ?thesis
    using run len flags total sorted after
    by (intro exI [of _ cs]) (simp add: n_def)
qed

theorem all_chunks_witness:
  "\<exists>cs. fst (getNext_calls ex_env [ex_world 2, ex_world 2] (ex_builder False 0)) = map Inr cs
     \<and> length cs = 2
     \<and> map moreVoxelsToBuffer cs = [True, False]
     \<and> (\<Sum>c\<leftarrow>cs. numElements c div 36) = 3
     \<and> sorted_wrt (<) (map progress cs)"
proof -
  have sizes: "\<forall>w\<in>set [ex_world 2, ex_world 2]. VOXEL_BUFFER_CHUNK_SIZE w = 2"
    by (simp add: ex_world_def)
  have occ: "False \<longrightarrow> occlusions_ok ex_env" by simp
  have m: "length (meshes (ex_world 2) 0) = 3" by (simp add: ex_world_def ex_mesh_def)
  have N: "0 < length (meshes (ex_world 2) 0)" by (simp add: m)
  have n: "int (length [ex_world 2, ex_world 2]) = (int (length (meshes (ex_world 2) 0)) + 2 - 1) div 2"
    by (simp add: m)
  have S: "0 < (2::int)" by simp
  from all_chunks [OF ex_cube_ok occ ex_constructor [of 2 False] sizes S N n]
  obtain cs where
    "fst (getNext_calls ex_env [ex_world 2, ex_world 2] (ex_builder False 0)) = map Inr cs"
    "length cs = length [ex_world 2, ex_world 2]"
    "map moreVoxelsToBuffer cs = replicate (length [ex_world 2, ex_world 2] - 1) True @ [False]"
    "(\<Sum>c\<leftarrow>cs. numElements c div 36) = length (meshes (ex_world 2) 0)"
    "sorted_wrt (<) (map progress cs)"
    by blast
  then show ?thesis by (intro exI [of _ cs]) (simp add: m)
qed

text \<open>
  C7. A \<open>getNext\<close> call whose chunk would start at or past the last voxel fails on the
  assertion and leaves the builder, cursor and cache, as it was; so does the first call on
  a builder of a mesh with no voxels.
\<close>

theorem getNext_past_the_end_fails:
  fixes E :: "('a::{zero,one,plus}, 'nb) env"
  shows "(int (this_numTotalVoxels this) \<le> int (this_nextChunkIndex this) * VOXEL_BUFFER_CHUNK_SIZE w
            \<longrightarrow> getNext E w this = (Inl (AssertionFailed ''Invalid voxel start index''), this))
       \<and> (meshes w0 voxelMesh = [] \<longrightarrow> constructor E w0 voxelMesh ao = Inr this0
            \<longrightarrow> getNext E w this0 = (Inl (AssertionFailed ''Invalid voxel start index''), this0))"
proof (intro conjI impI)
  have fails: "getNext E w b = (Inl (AssertionFailed ''Invalid voxel start index''), b)"
    if "int (this_numTotalVoxels b) \<le> int (this_nextChunkIndex b) * VOXEL_BUFFER_CHUNK_SIZE w"
    for b :: "('a, 'nb) BufferGenerator_VoxelMesh"
    using that
    by (simp add: getNext_def fromVoxelMesh_def Let_def ASSERT_def voxelsStartIndex_def)
  show "getNext E w this = (Inl (AssertionFailed ''Invalid voxel start index''), this)"
    if "int (this_numTotalVoxels this) \<le> int (this_nextChunkIndex this) * VOXEL_BUFFER_CHUNK_SIZE w"
    using that by (rule fails)
  assume "meshes w0 voxelMesh = []" "constructor E w0 voxelMesh ao = Inr this0"
  then have "this_numTotalVoxels this0 = 0" "this_nextChunkIndex this0 = 0"
    by (auto simp: constructor_def getVoxelCount_def)
  then show "getNext E w this0 = (Inl (AssertionFailed ''Invalid voxel start index''), this0)"
    by (intro fails) simp
qed

theorem getNext_past_the_end_fails_witness:
  "getNext ex_env (ex_world 2) (ex_builder True 2)
     = (Inl (AssertionFailed ''Invalid voxel start index''), ex_builder True 2)
   \<and> getNext ex_env (ex_world 2)
        (projr (constructor ex_env \<lparr> VOXEL_BUFFER_CHUNK_SIZE = 2, meshes = (\<lambda>_. []) \<rparr> 0 False))
     = (Inl (AssertionFailed ''Invalid voxel start index''),
        projr (constructor ex_env \<lparr> VOXEL_BUFFER_CHUNK_SIZE = 2, meshes = (\<lambda>_. []) \<rparr> 0 False))"
proof -
  note t = getNext_past_the_end_fails [where E = ex_env and w = "ex_world 2"]
  have "getNext ex_env (ex_world 2) (ex_builder True 2)
     = (Inl (AssertionFailed ''Invalid voxel start index''), ex_builder True 2)"
    using t [where this = "ex_builder True 2", THEN conjunct1]
    by (simp add: ex_builder_def ex_world_def)
  moreover have "getNext ex_env (ex_world 2)
        (projr (constructor ex_env \<lparr> VOXEL_BUFFER_CHUNK_SIZE = 2, meshes = (\<lambda>_. []) \<rparr> 0 False))
     = (Inl (AssertionFailed ''Invalid voxel start index''),
        projr (constructor ex_env \<lparr> VOXEL_BUFFER_CHUNK_SIZE = 2, meshes = (\<lambda>_. []) \<rparr> 0 False))"
    using t [where ?w0.0 = "\<lparr> VOXEL_BUFFER_CHUNK_SIZE = 2, meshes = (\<lambda>_. []) \<rparr>" and voxelMesh = 0
        and ao = False and this0 = "projr (constructor ex_env \<lparr> VOXEL_BUFFER_CHUNK_SIZE = 2, meshes = (\<lambda>_. []) \<rparr> 0 False)",
        THEN conjunct2]
    by (simp add: constructor_def)
  ultimately show ?thesis by blast
qed

text \<open>
  C8. After any run of \<open>getNext\<close> calls on a new builder, \<open>getFromIndex k\<close> gives nothing
  when \<open>k\<close> is at least the number of chunks produced, gives the chunk the \<open>(k+1)\<close>-th
  successful call returned otherwise, and leaves the builder as it was.
\<close>

theorem getFromIndex_cache_lookup:
  fixes E :: "('a::{zero,one,plus}, 'nb) env"
  assumes "constructor E w0 voxelMesh ao = Inr this0"
    and "getNext_calls E ws this0 = (rs, this)"
  shows "getFromIndex this k =
           (if k < length (successes rs) then Some (successes rs ! k) else None, this)"
proof -
  from assms(1) have "this_nextChunkIndex this0 = 0" "this_cache this0 = Map.empty"
    by (auto simp: constructor_def)
  with getNext_calls_state [OF assms(2)] show ?thesis
    by (simp add: getFromIndex_def)
qed

theorem getFromIndex_cache_lookup_witness:
  "\<exists>rs this. getNext_calls ex_env [ex_world 2, ex_world 2] (ex_builder False 0) = (rs, this)
     \<and> length (successes rs) = 2
     \<and> getFromIndex this 1 = (Some (successes rs ! 1), this)
     \<and> getFromIndex this 2 = (None, this)"
proof -
  obtain rs this where
    run: "getNext_calls ex_env [ex_world 2, ex_world 2] (ex_builder False 0) = (rs, this)"
    by (cases "getNext_calls ex_env [ex_world 2, ex_world 2] (ex_builder False 0)")
  have "\<forall>i<length [ex_world 2, ex_world 2]. 0 < VOXEL_BUFFER_CHUNK_SIZE ([ex_world 2, ex_world 2] ! i) \<and>
           int (this_nextChunkIndex (ex_builder False 0) + i) * VOXEL_BUFFER_CHUNK_SIZE ([ex_world 2, ex_world 2] ! i)
             < int (this_numTotalVoxels (ex_builder False 0))"
    by (simp add: ex_world_def ex_builder_def less_Suc_eq nth_Cons')
  from getNext_calls_all_return [OF ex_cube_ok ex_builder_ok this]
  have n: "length (successes rs) = 2" by (auto simp: run)
  note t = getFromIndex_cache_lookup [OF ex_constructor [of 2 False] run]
  have "getFromIndex this 1 = (Some (successes rs ! 1), this)" using t [of 1] n by simp
  moreover have "getFromIndex this 2 = (None, this)" using t [of 2] n by simp
  ultimately show ?thesis using run n by blast
qed

text \<open>
  C9, as the code has it. The builder takes its voxel sequence and its voxel count from
  the mesh once, at construction, and reads the chunk size from the configuration at every
  \<open>getNext\<close> call: two runs of calls on a new builder give the same outcomes and the same
  builder whenever the configured chunk sizes agree call by call, whatever has become of
  the meshes since construction.
\<close>

theorem snapshot_at_construction_chunk_size_at_call:
  fixes E :: "('a::{zero,one,plus}, 'nb) env"
  assumes "constructor E w0 voxelMesh ao = Inr this0"
    and "map VOXEL_BUFFER_CHUNK_SIZE ws = map VOXEL_BUFFER_CHUNK_SIZE ws'"
  shows "this_voxels this0 = getVoxels (meshes w0 voxelMesh)
       \<and> this_numTotalVoxels this0 = getVoxelCount (meshes w0 voxelMesh)
       \<and> getNext_calls E ws this0 = getNext_calls E ws' this0"
  using assms(1) getNext_calls_world [OF assms(2)]
  by (auto simp: constructor_def)

theorem snapshot_at_construction_chunk_size_at_call_witness:
  "this_voxels (ex_builder True 0) = getVoxels (meshes (ex_world 2) 0)
   \<and> getNext_calls ex_env [ex_world 2, ex_world 2] (ex_builder True 0)
     = getNext_calls ex_env
         [\<lparr> VOXEL_BUFFER_CHUNK_SIZE = 2, meshes = (\<lambda>_. []) \<rparr>,
          \<lparr> VOXEL_BUFFER_CHUNK_SIZE = 2, meshes = (\<lambda>_. rev ex_mesh) \<rparr>] (ex_builder True 0)"
  using snapshot_at_construction_chunk_size_at_call [OF ex_constructor [of 2 True],
      of "[ex_world 2, ex_world 2]"
         "[\<lparr> VOXEL_BUFFER_CHUNK_SIZE = 2, meshes = (\<lambda>_. []) \<rparr>,
           \<lparr> VOXEL_BUFFER_CHUNK_SIZE = 2, meshes = (\<lambda>_. rev ex_mesh) \<rparr>]"]
  by (simp add: ex_world_def)

text \<open>
  The claim as stated fails: with the chunk size 2 at construction and at the first call,
  and changed to 1 before the second call, the second call does not give what it gives
  when the chunk size stays 2.
\<close>

theorem chunk_size_change_counterexample:
  "constructor ex_env (ex_world 2) 0 False = Inr (ex_builder False 0)
   \<and> fst (getNext_calls ex_env [ex_world 2, ex_world 1] (ex_builder False 0))
     \<noteq> fst (getNext_calls ex_env [ex_world 2, ex_world 2] (ex_builder False 0))"
proof -
  have sizes: "\<forall>i\<le>1. 0 < VOXEL_BUFFER_CHUNK_SIZE ([ex_world 2, ex_world S] ! i) \<and>
           int (this_nextChunkIndex (ex_builder False 0) + i) * VOXEL_BUFFER_CHUNK_SIZE ([ex_world 2, ex_world S] ! i)
             < int (this_numTotalVoxels (ex_builder False 0))" if "S = 1 \<or> S = 2" for S
    using that by (auto simp: ex_world_def ex_builder_def le_Suc_eq)
  have second: "fst (getNext_calls ex_env [ex_world 2, ex_world S] (ex_builder False 0)) ! 1
      = fromVoxelMesh ex_env (ex_world S) (ex_builder False 0) 1" if "S = 1 \<or> S = 2" for S
    using getNext_calls_prefix [OF ex_cube_ok ex_builder_ok _ sizes [OF that]]
    by (simp add: ex_builder_def)
  have prog: "\<exists>chunk. fromVoxelMesh ex_env (ex_world S) (ex_builder False 0) 1 = Inr chunk
      \<and> progress chunk = of_int S / 3" if "S = 1 \<or> S = 2" for S
  proof -
    have "\<exists>chunk. fromVoxelMesh ex_env (ex_world S) (ex_builder False 0) 1 = Inr chunk"
      using that
      by (intro fromVoxelMesh_returns ex_cube_ok)
        (auto simp: ex_builder_def ex_world_def ex_mesh_def)
    then obtain chunk where c: "fromVoxelMesh ex_env (ex_world S) (ex_builder False 0) 1 = Inr chunk"
      by blast
    from fromVoxelMesh_Inr(11) [OF c] have "progress chunk = of_int S / 3"
      by (simp add: voxelsStartIndex_def ex_world_def ex_builder_def)
    with c show ?thesis by blast
  qed
  from prog [of 1] prog [of 2] second [of 1] second [of 2]
  have "fst (getNext_calls ex_env [ex_world 2, ex_world 1] (ex_builder False 0)) ! 1
     \<noteq> fst (getNext_calls ex_env [ex_world 2, ex_world 2] (ex_builder False 0)) ! 1"
    by auto
  then have "fst (getNext_calls ex_env [ex_world 2, ex_world 1] (ex_builder False 0))
     \<noteq> fst (getNext_calls ex_env [ex_world 2, ex_world 2] (ex_builder False 0))"
    by metis
  then show ?thesis by (simp add: ex_constructor)
qed

text \<open>
  C10, as the code has it. The constructor does not read the configured chunk size and
  returns a builder whatever it is; with a chunk size of zero or less, and a template of
  the right shape, every \<open>getNext\<close> call fails and leaves the builder as it was.
\<close>

theorem constructor_ignores_chunk_size:
  fixes E :: "('a::{zero,one,plus}, 'nb) env"
  shows "constructor E (w \<lparr> VOXEL_BUFFER_CHUNK_SIZE := s \<rparr>) voxelMesh ao = constructor E w voxelMesh ao
       \<and> \<not> isl (constructor E w voxelMesh ao)
       \<and> (cube_ok E \<longrightarrow> VOXEL_BUFFER_CHUNK_SIZE w \<le> 0 \<longrightarrow>
            (\<exists>e. getNext E w this = (Inl e, this)))"
  using getNext_nonpositive [of E w this]
  by (simp add: constructor_def)

theorem constructor_ignores_chunk_size_witness:
  "constructor ex_env ((ex_world 2) \<lparr> VOXEL_BUFFER_CHUNK_SIZE := 0 \<rparr>) 0 True
     = constructor ex_env (ex_world 2) 0 True
   \<and> (\<exists>e. getNext ex_env (ex_world 0) (ex_builder True 0) = (Inl e, ex_builder True 0))
   \<and> (\<exists>e. getNext ex_env (ex_world (- 1)) (ex_builder True 0) = (Inl e, ex_builder True 0))"
  using constructor_ignores_chunk_size [where E = ex_env and w = "ex_world 2" and s = 0
      and voxelMesh = 0 and ao = True]
    constructor_ignores_chunk_size [where E = ex_env and w = "ex_world 0"
      and this = "ex_builder True 0"]
    constructor_ignores_chunk_size [where E = ex_env and w = "ex_world (- 1)"
      and this = "ex_builder True 0"]
    ex_cube_ok
  by (simp add: ex_world_def)

text \<open>
  The claim as stated fails: the constructor returns a builder under a chunk size of
  zero and under a negative one.
\<close>

theorem constructor_accepts_chunk_size_counterexample:
  "\<not> isl (constructor ex_env (ex_world 0) 0 False)
   \<and> \<not> isl (constructor ex_env (ex_world (- 1)) 0 False)"
  by (simp add: constructor_def)

end
